theory Spec2Isabelle
  imports Complex_Main
begin

section \<open>Password-change rate limiter\<close>

text \<open>
  The limiter keeps one entry per user id in a process-wide map. The map is passed in and
  returned explicitly. Every call of \<^verbatim>\<open>Date.now()\<close> in the source is a separate argument
  (an instant in milliseconds), in the order in which the source reads the clock, and the
  value of \<^verbatim>\<open>Math.random()\<close> is an argument as well.
\<close>

record RateLimitEntry =
  count :: int
  firstAttempt :: int

type_synonym rateLimitStore = "string \<rightharpoonup> RateLimitEntry"

definition MAX_ATTEMPTS :: int where
  "MAX_ATTEMPTS = 5"

definition WINDOW_MS :: int where
  "WINDOW_MS = 15 * 60 * 1000"

definition cleanupExpiredEntries :: "int \<Rightarrow> rateLimitStore \<Rightarrow> rateLimitStore" where
  "cleanupExpiredEntries now store =
     (\<lambda>key. case store key of
        None \<Rightarrow> None
      | Some entry \<Rightarrow> if now - firstAttempt entry > WINDOW_MS then None else Some entry)"

record RateLimitStatus =
  allowed :: bool
  remainingAttempts :: int
  resetTime :: int

definition checkPasswordChangeRateLimit ::
  "real \<Rightarrow> int \<Rightarrow> int \<Rightarrow> rateLimitStore \<Rightarrow> string \<Rightarrow> RateLimitStatus \<times> rateLimitStore" where
  "checkPasswordChangeRateLimit rnd now_sweep now store userId =
     (let store1 = (if rnd < 0.1 then cleanupExpiredEntries now_sweep store else store) in
      case store1 userId of
        None \<Rightarrow>
          (\<lparr>allowed = True, remainingAttempts = MAX_ATTEMPTS, resetTime = now + WINDOW_MS\<rparr>,
           store1)
      | Some entry \<Rightarrow>
          if now - firstAttempt entry > WINDOW_MS
          then (\<lparr>allowed = True, remainingAttempts = MAX_ATTEMPTS,
                  resetTime = now + WINDOW_MS\<rparr>, store1)
          else (\<lparr>allowed = count entry < MAX_ATTEMPTS,
                  remainingAttempts = max 0 (MAX_ATTEMPTS - count entry),
                  resetTime = firstAttempt entry + WINDOW_MS\<rparr>, store1))"

definition recordPasswordChangeAttempt :: "int \<Rightarrow> rateLimitStore \<Rightarrow> string \<Rightarrow> rateLimitStore" where
  "recordPasswordChangeAttempt now store userId =
     (case store userId of
        None \<Rightarrow> store(userId \<mapsto> \<lparr>count = 1, firstAttempt = now\<rparr>)
      | Some entry \<Rightarrow>
          if now - firstAttempt entry > WINDOW_MS
          then store(userId \<mapsto> \<lparr>count = 1, firstAttempt = now\<rparr>)
          else store(userId \<mapsto> entry\<lparr>count := count entry + 1\<rparr>))"

text \<open>
  The value thrown by the guard: the body of the 429 response. The Korean sentence of the
  \<^verbatim>\<open>error\<close> field is represented by the number it embeds, and \<^verbatim>\<open>toISOString()\<close> by the
  instant it renders.
\<close>

record TooManyRequests =
  minutesUntilReset :: int
  payload_resetTime :: int
  payload_remainingAttempts :: int
  response_status :: int

definition requirePasswordChangeRateLimit ::
  "real \<Rightarrow> int \<Rightarrow> int \<Rightarrow> int \<Rightarrow> int \<Rightarrow> rateLimitStore \<Rightarrow> string
     \<Rightarrow> (TooManyRequests + unit) \<times> rateLimitStore" where
  "requirePasswordChangeRateLimit rnd now_sweep now_check now_throw now_record store userId =
     (case checkPasswordChangeRateLimit rnd now_sweep now_check store userId of
        (st, store1) \<Rightarrow>
          if \<not> allowed st
          then (Inl \<lparr>minutesUntilReset = \<lceil>real_of_int (resetTime st - now_throw) / 60000\<rceil>,
                     payload_resetTime = resetTime st,
                     payload_remainingAttempts = 0,
                     response_status = 429\<rparr>, store1)
          else (Inr (), recordPasswordChangeAttempt now_record store1 userId))"

definition resetPasswordChangeRateLimit :: "rateLimitStore \<Rightarrow> string \<Rightarrow> rateLimitStore" where
  "resetPasswordChangeRateLimit store userId = store(userId := None)"

text \<open>A run of attempts recorded one after the other for one user.\<close>

fun record_attempts :: "int list \<Rightarrow> rateLimitStore \<Rightarrow> string \<Rightarrow> rateLimitStore" where
  "record_attempts [] store userId = store"
| "record_attempts (t # ts) store userId =
     record_attempts ts (recordPasswordChangeAttempt t store userId) userId"

text \<open>
  A run of guarded attempts for one user; each call comes with the value of
  \<^verbatim>\<open>Math.random()\<close> and the four clock readings it makes.
\<close>

fun require_repeatedly ::
  "(real \<times> int \<times> int \<times> int \<times> int) list \<Rightarrow> rateLimitStore \<Rightarrow> string
     \<Rightarrow> (TooManyRequests + unit) list \<times> rateLimitStore" where
  "require_repeatedly [] store userId = ([], store)"
| "require_repeatedly ((rnd, ns, nc, nt, nr) # calls) store userId =
     (case requirePasswordChangeRateLimit rnd ns nc nt nr store userId of
        (r, store1) \<Rightarrow>
          (case require_repeatedly calls store1 userId of
             (rs, store2) \<Rightarrow> (r # rs, store2)))"


section \<open>Values shared by the analysis services\<close>

text \<open>
  Text is a list of characters; the characters the code looks for (back-ticks, braces, the
  letters of \<^verbatim>\<open>json\<close>) are ASCII. The Korean sentences that the code throws are constants
  of the type \<open>message\<close>, and a template literal that embeds a message is a constructor.
\<close>

datatype message =
    Text string
  | MSG_no_storage_path
  | MSG_no_frames
  | MSG_unknown_error
  | MSG_null_property
  | AI_failed message

text \<open>
  A thrown value is an object: an \<^verbatim>\<open>Error\<close> with its message, or some other object, each
  with the \<^verbatim>\<open>status\<close> property the code reads (absent for a plain \<^verbatim>\<open>new Error(...)\<close>).
\<close>

datatype thrown =
    Error (err_message: message) (err_status: "int option")
  | NonError (err_status: "int option")

text \<open>
  The values \<^verbatim>\<open>JSON.parse\<close> returns. A number keeps its literal, an object its members in
  the order of the text.
\<close>

datatype json =
    JNull
  | JBool bool
  | JNumber string
  | JString string
  | JArray "json list"
  | JObject "(string \<times> json) list"

text \<open>
  Reading a property of a parsed value: of \<^verbatim>\<open>null\<close> it throws a TypeError, of an object
  it gives the last member of that name, otherwise \<^verbatim>\<open>undefined\<close> (the names read by this
  code are defined by no built-in prototype).
\<close>

fun js_get :: "json \<Rightarrow> string \<Rightarrow> thrown + json option" where
  "js_get JNull k = Inl (Error MSG_null_property None)"
| "js_get (JObject kvs) k = Inr (map_of (rev kvs) k)"
| "js_get v k = Inr None"

fun digit_char :: "nat \<Rightarrow> char" where
  "digit_char n = ''0123456789'' ! (n mod 10)"

fun string_of_nat :: "nat \<Rightarrow> string" where
  "string_of_nat n =
     (if n < 10 then [digit_char n] else string_of_nat (n div 10) @ [digit_char n])"

section \<open>The environment of an analysis job\<close>

datatype upload_outcome = Uploaded | Upload_error | Upload_throws

text \<open>
  Everything outside the repository that a job calls: the parser \<^verbatim>\<open>JSON.parse\<close>
  (\<open>None\<close> when it throws), the process environment, the file system, the model API (by
  attempt number and model name, giving the response text or the thrown value), blob storage,
  the frame extractor, and the clock at the two \<^verbatim>\<open>new Date()\<close> of a successful job.
  \<open>upload_frame\<close> is the outcome of the body of one round of the upload loop: the upload
  reports no error, reports an error, or something in the round throws.
\<close>

record env =
  JSON_parse :: "string \<Rightarrow> json option"
  GEMINI_API_KEY :: "string option"
  SUPABASE_URL :: "string option"
  readFile :: "string \<Rightarrow> thrown + string"
  generateContent :: "nat \<Rightarrow> string \<Rightarrow> string list \<Rightarrow> thrown + string"
  storage_download :: "string \<Rightarrow> thrown + string"
  save_temp :: "string \<Rightarrow> string \<Rightarrow> thrown + string"
  extractFrames :: "string \<Rightarrow> thrown + string list"
  upload_frame :: "nat \<Rightarrow> string \<Rightarrow> string \<Rightarrow> upload_outcome"
  date_workflow :: int
  date_video :: int

section \<open>The model client: extracting JSON and falling back across models\<close>

fun fold_case :: "char \<Rightarrow> char" where
  "fold_case c =
     (if c = CHR ''J'' then CHR ''j'' else if c = CHR ''S'' then CHR ''s''
      else if c = CHR ''O'' then CHR ''o'' else if c = CHR ''N'' then CHR ''n'' else c)"

text \<open>\<open>starts_ci p s\<close>: the text \<open>s\<close> begins with the pattern \<open>p\<close>, letters compared without case.\<close>

fun starts_ci :: "string \<Rightarrow> string \<Rightarrow> bool" where
  "starts_ci [] s = True"
| "starts_ci (p # ps) [] = False"
| "starts_ci (p # ps) (c # cs) = (fold_case c = fold_case p \<and> starts_ci ps cs)"

definition fence :: string where
  "fence = [CHR 0x60, CHR 0x60, CHR 0x60]"

definition fence_json :: string where
  "fence_json = fence @ ''json''"

text \<open>
  The lazy middle of \<^verbatim>\<open>/```json[\s\S]*?```/i\<close>: the shortest prefix of \<open>s\<close> that is followed
  by three back-ticks.
\<close>

fun lazy_until_fence :: "string \<Rightarrow> string option" where
  "lazy_until_fence [] = None"
| "lazy_until_fence (c # cs) =
     (if starts_ci fence (c # cs) then Some []
      else map_option (Cons c) (lazy_until_fence cs))"

text \<open>\<^verbatim>\<open>text.match(/```json[\s\S]*?```/i)\<close>: the leftmost match, as the substring matched.\<close>

fun match_codeBlock :: "string \<Rightarrow> string option" where
  "match_codeBlock [] = None"
| "match_codeBlock (c # cs) =
     (if starts_ci fence_json (c # cs)
      then (case lazy_until_fence (drop 7 (c # cs)) of
              Some body \<Rightarrow> Some (take 7 (c # cs) @ body @ fence)
            | None \<Rightarrow> match_codeBlock cs)
      else match_codeBlock cs)"

text \<open>\<^verbatim>\<open>.replace(/```json/i, "")\<close>: the first occurrence is removed.\<close>

fun replace_fence_json :: "string \<Rightarrow> string" where
  "replace_fence_json [] = []"
| "replace_fence_json (c # cs) =
     (if starts_ci fence_json (c # cs) then drop 7 (c # cs) else c # replace_fence_json cs)"

text \<open>\<^verbatim>\<open>.replace(/```/g, "")\<close>: every occurrence, left to right, is removed.\<close>

fun replace_fences :: "string \<Rightarrow> string" where
  "replace_fences (a # b # c # cs) =
     (if [a, b, c] = fence then replace_fences cs else a # replace_fences (b # c # cs))"
| "replace_fences s = s"

fun indexOf :: "string \<Rightarrow> char \<Rightarrow> nat option" where
  "indexOf [] x = None"
| "indexOf (c # cs) x = (if c = x then Some 0 else map_option Suc (indexOf cs x))"

definition lastIndexOf :: "string \<Rightarrow> char \<Rightarrow> nat option" where
  "lastIndexOf s x = map_option (\<lambda>i. length s - 1 - i) (indexOf (rev s) x)"

definition slice :: "string \<Rightarrow> nat \<Rightarrow> nat \<Rightarrow> string" where
  "slice s a b = take (b - a) (drop a s)"

text \<open>\<open>occurs_in p s\<close>: the pattern \<open>p\<close> occurs somewhere in \<open>s\<close>, letters compared without case.\<close>

fun occurs_in :: "string \<Rightarrow> string \<Rightarrow> bool" where
  "occurs_in p [] = starts_ci p []"
| "occurs_in p (c # cs) = (starts_ci p (c # cs) \<or> occurs_in p cs)"

definition parse_failure :: thrown where
  "parse_failure = Error (Text ''Failed to parse JSON from Gemini response'') None"

definition parse_or_throw :: "(string \<Rightarrow> json option) \<Rightarrow> string \<Rightarrow> thrown + json" where
  "parse_or_throw parse s = (case parse s of None \<Rightarrow> Inl parse_failure | Some v \<Rightarrow> Inr v)"

definition extractJson :: "(string \<Rightarrow> json option) \<Rightarrow> string \<Rightarrow> thrown + json" where
  "extractJson parse text =
     (case match_codeBlock text of
        Some codeBlock \<Rightarrow> parse_or_throw parse (replace_fences (replace_fence_json codeBlock))
      | None \<Rightarrow>
          (case (indexOf text (CHR ''{''), lastIndexOf text (CHR ''}'')) of
             (Some firstBrace, Some lastBrace) \<Rightarrow>
               parse_or_throw parse (slice text firstBrace (lastBrace + 1))
           | _ \<Rightarrow> parse_or_throw parse text))"

text \<open>
  \<^verbatim>\<open>!json?.steps || !Array.isArray(json.steps)\<close> lets through exactly a value with an
  array-valued \<^verbatim>\<open>steps\<close> property (an array is never falsy); the result is that array.
\<close>

fun steps_array :: "json \<Rightarrow> json list option" where
  "steps_array (JObject kvs) =
     (case map_of (rev kvs) ''steps'' of Some (JArray xs) \<Rightarrow> Some xs | _ \<Rightarrow> None)"
| "steps_array v = None"

datatype gemini_event = Try string | Wait nat

definition truthy_status :: "int option \<Rightarrow> bool" where
  "truthy_status st = (case st of None \<Rightarrow> False | Some n \<Rightarrow> n \<noteq> 0)"

text \<open>\<^verbatim>\<open>error.status && error.status !== 503\<close>: the failures that end the loop at once.\<close>

definition is_fatal :: "thrown \<Rightarrow> bool" where
  "is_fatal err = (truthy_status (err_status err) \<and> err_status err \<noteq> Some 503)"

text \<open>The body of the \<^verbatim>\<open>try\<close> for one model.\<close>

definition attempt_model :: "env \<Rightarrow> nat \<Rightarrow> string \<Rightarrow> string list \<Rightarrow> thrown + json list" where
  "attempt_model e i modelName imageParts =
     (case generateContent e i modelName imageParts of
        Inl err \<Rightarrow> Inl err
      | Inr text \<Rightarrow>
          (case extractJson (JSON_parse e) text of
             Inl err \<Rightarrow> Inl err
           | Inr j \<Rightarrow>
               (case steps_array j of
                  None \<Rightarrow> Inl (Error (Text ''Invalid JSON format from Gemini'') None)
                | Some steps \<Rightarrow> Inr steps)))"

fun index_of :: "'a list \<Rightarrow> 'a \<Rightarrow> int" where
  "index_of [] x = -1"
| "index_of (y # ys) x = (if y = x then 0 else (let r = index_of ys x in if r < 0 then r else r + 1))"

text \<open>The wait before the next model: none after the model at the last index.\<close>

definition pause :: "string list \<Rightarrow> string \<Rightarrow> gemini_event list" where
  "pause models modelName =
     (if index_of models modelName < int (length models) - 1 then [Wait 1000] else [])"

text \<open>
  The loop over the models: \<open>i\<close> counts the attempts, \<open>lastError\<close> is the variable of the
  source. The result comes with the trace of models tried and waits made.
\<close>

fun try_models ::
  "env \<Rightarrow> string list \<Rightarrow> string list \<Rightarrow> nat \<Rightarrow> string list \<Rightarrow> thrown option
     \<Rightarrow> gemini_event list \<times> (thrown + json list)" where
  "try_models e models imageParts i [] lastError =
     ([], Inl (case lastError of
                 Some err \<Rightarrow> err
               | None \<Rightarrow> Error (Text ''All Gemini models failed'') None))"
| "try_models e models imageParts i (modelName # rest) lastError =
     (case attempt_model e i modelName imageParts of
        Inr steps \<Rightarrow> ([Try modelName], Inr steps)
      | Inl err \<Rightarrow>
          if is_fatal err then ([Try modelName], Inl err)
          else
            (case try_models e models imageParts (Suc i) rest (Some err) of
               (evs, r) \<Rightarrow> (Try modelName # pause models modelName @ evs, r)))"

text \<open>Reading all frames; the first failure in list order stands for the rejection.\<close>

fun read_all :: "env \<Rightarrow> string list \<Rightarrow> thrown + string list" where
  "read_all e [] = Inr []"
| "read_all e (p # ps) =
     (case readFile e p of
        Inl err \<Rightarrow> Inl err
      | Inr d \<Rightarrow> (case read_all e ps of Inl err \<Rightarrow> Inl err | Inr ds \<Rightarrow> Inr (d # ds)))"

text \<open>The list of models of the two versions of the client in the repository.\<close>

definition models_flash :: "string option \<Rightarrow> string list" where
  "models_flash model =
     [case model of None \<Rightarrow> ''gemini-2.0-flash'' | Some m \<Rightarrow> m,
      ''gemini-flash-latest'', ''gemini-2.5-flash'']"

definition models_lite :: "string option \<Rightarrow> string list" where
  "models_lite model =
     [case model of None \<Rightarrow> ''gemini-2.5-flash'' | Some m \<Rightarrow> m,
      ''gemini-2.5-flash-lite'', ''gemini-2.0-flash'']"

definition analyzeFramesWithGemini_trace ::
  "env \<Rightarrow> string list \<Rightarrow> string list \<Rightarrow> gemini_event list \<times> (thrown + json list)" where
  "analyzeFramesWithGemini_trace e models framePaths =
     (case GEMINI_API_KEY e of
        None \<Rightarrow> ([], Inl (Error (Text ''GEMINI_API_KEY is not set'') None))
      | Some apiKey \<Rightarrow>
          if apiKey = [] then ([], Inl (Error (Text ''GEMINI_API_KEY is not set'') None))
          else
            (case read_all e framePaths of
               Inl err \<Rightarrow> ([], Inl err)
             | Inr imageParts \<Rightarrow> try_models e models imageParts 0 models None))"

definition analyzeFramesWithGemini :: "env \<Rightarrow> string list \<Rightarrow> string list \<Rightarrow> thrown + json list" where
  "analyzeFramesWithGemini e models framePaths =
     snd (analyzeFramesWithGemini_trace e models framePaths)"


section \<open>The video-analysis pipeline\<close>

definition downloadVideoFromSupabase :: "env \<Rightarrow> string \<Rightarrow> thrown + string" where
  "downloadVideoFromSupabase e storagePath =
     (if storagePath = [] then Inl (Error (Text ''Invalid storage path'') None)
      else
        (case storage_download e storagePath of
           Inl err \<Rightarrow> Inl err
         | Inr buffer \<Rightarrow> save_temp e storagePath buffer))"

definition env_string :: "string option \<Rightarrow> string" where
  "env_string v = (case v of None \<Rightarrow> ''undefined'' | Some s \<Rightarrow> s)"

definition screenshot_storagePath :: "nat \<Rightarrow> nat \<Rightarrow> string" where
  "screenshot_storagePath workflowId i =
     ''screenshots/'' @ string_of_nat workflowId @ ''/'' @
     ''workflow_'' @ string_of_nat workflowId @ ''_step_'' @ string_of_nat (i + 1) @ ''.jpg''"

definition publicUrl :: "env \<Rightarrow> nat \<Rightarrow> nat \<Rightarrow> string" where
  "publicUrl e workflowId i =
     env_string (SUPABASE_URL e) @ ''/storage/v1/object/public/work-videos/'' @
     screenshot_storagePath workflowId i"

text \<open>The upload loop from index \<open>i\<close> on; a round that fails pushes \<^verbatim>\<open>null\<close> and goes on.\<close>

fun upload_from :: "env \<Rightarrow> nat \<Rightarrow> nat \<Rightarrow> string list \<Rightarrow> string option list" where
  "upload_from e workflowId i [] = []"
| "upload_from e workflowId i (framePath # rest) =
     (case upload_frame e i framePath (screenshot_storagePath workflowId i) of
        Uploaded \<Rightarrow> Some (publicUrl e workflowId i)
      | Upload_error \<Rightarrow> None
      | Upload_throws \<Rightarrow> None) # upload_from e workflowId (Suc i) rest"

definition uploadFramesToStorage :: "env \<Rightarrow> string list \<Rightarrow> nat \<Rightarrow> string option list" where
  "uploadFramesToStorage e framePaths workflowId = upload_from e workflowId 0 framePaths"

record VideoAnalysisResult =
  r_type :: "json option"
  r_action :: "json option"
  r_description :: "json option"
  r_confidence :: "json option"
  r_timestamp_seconds :: "nat option"
  r_screenshot_url :: "string option"

text \<open>\<^verbatim>\<open>validUrls[index] || undefined\<close>\<close>

definition url_at :: "string list \<Rightarrow> nat \<Rightarrow> string option" where
  "url_at validUrls index =
     (if index < length validUrls \<and> validUrls ! index \<noteq> [] then Some (validUrls ! index)
      else None)"

definition merge_step :: "string list \<Rightarrow> json \<Rightarrow> nat \<Rightarrow> thrown + VideoAnalysisResult" where
  "merge_step validUrls s index =
     (case js_get s ''type'' of Inl err \<Rightarrow> Inl err | Inr ty \<Rightarrow>
      case js_get s ''action'' of Inl err \<Rightarrow> Inl err | Inr ac \<Rightarrow>
      case js_get s ''description'' of Inl err \<Rightarrow> Inl err | Inr de \<Rightarrow>
      case js_get s ''confidence'' of Inl err \<Rightarrow> Inl err | Inr co \<Rightarrow>
        Inr \<lparr>r_type = ty, r_action = ac, r_description = de, r_confidence = co,
             r_timestamp_seconds = None, r_screenshot_url = url_at validUrls index\<rparr>)"

text \<open>\<^verbatim>\<open>steps.map((s, index) => ...)\<close> from index \<open>i\<close> on; a callback that throws ends the map.\<close>

fun merge_from :: "string list \<Rightarrow> nat \<Rightarrow> json list \<Rightarrow> thrown + VideoAnalysisResult list" where
  "merge_from validUrls i [] = Inr []"
| "merge_from validUrls i (s # ss) =
     (case merge_step validUrls s i of
        Inl err \<Rightarrow> Inl err
      | Inr r \<Rightarrow>
          (case merge_from validUrls (Suc i) ss of
             Inl err \<Rightarrow> Inl err
           | Inr rs \<Rightarrow> Inr (r # rs)))"

text \<open>
  The merge stage of \<^verbatim>\<open>performAIAnalysis\<close>: the uploaded URLs are filtered to the valid ones
  and each step takes the valid URL at its own index.
\<close>

definition validUrls_of :: "string option list \<Rightarrow> string list" where
  "validUrls_of screenshotUrls =
     map the (filter (\<lambda>url. url \<noteq> None \<and> url \<noteq> Some []) screenshotUrls)"

definition merge_screenshots ::
  "string option list \<Rightarrow> json list \<Rightarrow> thrown + VideoAnalysisResult list" where
  "merge_screenshots screenshotUrls steps =
     (let validUrls = validUrls_of screenshotUrls in merge_from validUrls 0 steps)"

text \<open>
  The body of the outer \<^verbatim>\<open>try\<close> of \<^verbatim>\<open>performAIAnalysis\<close>. The two clean-up callbacks
  delete temporary files and are taken not to throw; logging is left out.
\<close>

definition analysis_stages ::
  "env \<Rightarrow> string list \<Rightarrow> string \<Rightarrow> nat \<Rightarrow> thrown + VideoAnalysisResult list" where
  "analysis_stages e models storagePath workflowId =
     (case downloadVideoFromSupabase e storagePath of
        Inl err \<Rightarrow> Inl err
      | Inr filePath \<Rightarrow>
          (case extractFrames e filePath of
             Inl err \<Rightarrow> Inl err
           | Inr paths \<Rightarrow>
               if paths = [] then Inl (Error MSG_no_frames None)
               else
                 (case analyzeFramesWithGemini e models paths of
                    Inl err \<Rightarrow> Inl err
                  | Inr steps \<Rightarrow>
                      merge_screenshots (uploadFramesToStorage e paths workflowId) steps)))"

definition performAIAnalysis ::
  "env \<Rightarrow> string list \<Rightarrow> string option \<Rightarrow> nat \<Rightarrow> thrown + VideoAnalysisResult list" where
  "performAIAnalysis e models storagePath workflowId =
     (case storagePath of
        None \<Rightarrow> Inl (Error MSG_no_storage_path None)
      | Some p \<Rightarrow>
          if p = [] then Inl (Error MSG_no_storage_path None)
          else
            (case analysis_stages e models p workflowId of
               Inl err \<Rightarrow>
                 Inl (Error (AI_failed (case err of
                                          Error m st \<Rightarrow> m
                                        | NonError st \<Rightarrow> MSG_unknown_error)) None)
             | Inr results \<Rightarrow> Inr results))"

subsection \<open>The persisted records and the background job\<close>

record workVideo =
  video_status :: string
  progress :: int
  storage_path :: "string option"
  error_message :: "message option"
  video_completed_at :: "int option"

record workWorkflow =
  workflow_status :: string
  workflow_completed_at :: "int option"

record workAnalysisStep =
  workflow_id :: nat
  sequence_no :: nat
  step_type :: "json option"
  step_action :: "json option"
  step_description :: "json option"
  timestamp_label :: "string option"
  timestamp_seconds :: "nat option"
  confidence :: "json option"
  screenshot_url :: "string option"

record database =
  workVideos :: "nat \<rightharpoonup> workVideo"
  workWorkflows :: "nat \<rightharpoonup> workWorkflow"
  workAnalysisSteps :: "workAnalysisStep list"

text \<open>
  The statements the job sends to the database, with the values they set. The database is
  an external collaborator: a statement that is sent is taken to succeed, and an update of a
  row that does not exist changes nothing.
\<close>

datatype statement =
    Video_processing nat
  | Steps_insert "workAnalysisStep list"
  | Workflow_analyzed nat int
  | Video_completed nat int
  | Workflow_pending nat
  | Video_error nat message

definition update_video :: "nat \<Rightarrow> (workVideo \<Rightarrow> workVideo) \<Rightarrow> database \<Rightarrow> database" where
  "update_video videoId f db =
     (case workVideos db videoId of
        None \<Rightarrow> db
      | Some v \<Rightarrow> db\<lparr>workVideos := (workVideos db)(videoId \<mapsto> f v)\<rparr>)"

definition update_workflow ::
  "nat \<Rightarrow> (workWorkflow \<Rightarrow> workWorkflow) \<Rightarrow> database \<Rightarrow> database" where
  "update_workflow workflowId f db =
     (case workWorkflows db workflowId of
        None \<Rightarrow> db
      | Some w \<Rightarrow> db\<lparr>workWorkflows := (workWorkflows db)(workflowId \<mapsto> f w)\<rparr>)"

fun exec :: "statement \<Rightarrow> database \<Rightarrow> database" where
  "exec (Video_processing videoId) db =
     update_video videoId (\<lambda>v. v\<lparr>video_status := ''processing'', progress := 10\<rparr>) db"
| "exec (Steps_insert rows) db = db\<lparr>workAnalysisSteps := workAnalysisSteps db @ rows\<rparr>"
| "exec (Workflow_analyzed workflowId t) db =
     update_workflow workflowId
       (\<lambda>w. w\<lparr>workflow_status := ''analyzed'', workflow_completed_at := Some t\<rparr>) db"
| "exec (Video_completed videoId t) db =
     update_video videoId
       (\<lambda>v. v\<lparr>video_status := ''completed'', progress := 100,
               video_completed_at := Some t\<rparr>) db"
| "exec (Workflow_pending workflowId) db =
     update_workflow workflowId (\<lambda>w. w\<lparr>workflow_status := ''pending''\<rparr>) db"
| "exec (Video_error videoId m) db =
     update_video videoId (\<lambda>v. v\<lparr>video_status := ''error'', error_message := Some m\<rparr>) db"

fun pad2 :: "string \<Rightarrow> string" where
  "pad2 s = (if length s < 2 then replicate (2 - length s) (CHR ''0'') @ s else s)"

definition formatTimestamp :: "nat \<Rightarrow> string" where
  "formatTimestamp seconds =
     pad2 (string_of_nat (seconds div 60)) @ '':'' @ pad2 (string_of_nat (seconds mod 60))"

definition step_row :: "nat \<Rightarrow> VideoAnalysisResult \<Rightarrow> nat \<Rightarrow> workAnalysisStep" where
  "step_row workflowId result index =
     \<lparr>workflow_id = workflowId,
      sequence_no = index + 1,
      step_type = r_type result,
      step_action = r_action result,
      step_description = r_description result,
      timestamp_label =
        (case r_timestamp_seconds result of
           None \<Rightarrow> None
         | Some t \<Rightarrow> if t = 0 then None else Some (formatTimestamp t)),
      timestamp_seconds = r_timestamp_seconds result,
      confidence = r_confidence result,
      screenshot_url = r_screenshot_url result\<rparr>"

definition step_rows :: "nat \<Rightarrow> VideoAnalysisResult list \<Rightarrow> workAnalysisStep list" where
  "step_rows workflowId analysisResults =
     map (\<lambda>(result, index). step_row workflowId result index)
       (zip analysisResults [0 ..< length analysisResults])"

text \<open>
  The background job: the statements it sends, in order, and the database after them.
  The video is read back after the first statement. The insert is built by
  \<^verbatim>\<open>db.insert(workAnalysisSteps).values(steps)\<close>, and \<^verbatim>\<open>values\<close> throws on an empty list of
  rows before anything is sent; the throw is inside the \<^verbatim>\<open>try\<close>, so the \<^verbatim>\<open>catch\<close> runs.
\<close>

definition empty_values :: thrown where
  "empty_values = Error (Text ''values() must be called with at least one value'') None"

definition analyzeVideoInBackground ::
  "env \<Rightarrow> string list \<Rightarrow> database \<Rightarrow> nat \<Rightarrow> nat \<Rightarrow> statement list \<times> database" where
  "analyzeVideoInBackground e models db videoId workflowId =
     (let db1 = exec (Video_processing videoId) db in
      case (case workVideos db1 videoId of
              None \<Rightarrow> Inl (Error (Text ''Video not found'') None)
            | Some video \<Rightarrow>
                (case performAIAnalysis e models (storage_path video) workflowId of
                   Inl err \<Rightarrow> Inl err
                 | Inr analysisResults \<Rightarrow>
                     (let steps = step_rows workflowId analysisResults
                      in if steps = [] then Inl empty_values else Inr steps))) of
        Inr steps \<Rightarrow>
          (let db2 = exec (Steps_insert steps) db1;
               db3 = exec (Workflow_analyzed workflowId (date_workflow e)) db2;
               db4 = exec (Video_completed videoId (date_video e)) db3
           in ([Video_processing videoId, Steps_insert steps,
                Workflow_analyzed workflowId (date_workflow e),
                Video_completed videoId (date_video e)], db4))
      | Inl err \<Rightarrow>
          (let m = (case err of Error m st \<Rightarrow> m | NonError st \<Rightarrow> Text ''Unknown error'');
               db2 = exec (Workflow_pending workflowId) db1;
               db3 = exec (Video_error videoId m) db2
           in ([Video_processing videoId, Workflow_pending workflowId,
                Video_error videoId m], db3)))"


section \<open>A reference parser for the examples\<close>

text \<open>
  \<^verbatim>\<open>JSON.parse\<close> belongs to the language, not to the repository; the general results below
  hold for any parser. The concrete examples use this parser of the JSON grammar (RFC 8259):
  white space, the three literals, numbers, strings with their escapes, arrays and objects.
  A number is kept as its literal, a \<^verbatim>\<open>\u\<close> escape as it is written. The recursion on
  values is bounded by a counter that the top-level call sets to twice the length of the
  text plus two, more than the nesting of any text of that length needs.
\<close>

definition is_ws :: "char \<Rightarrow> bool" where
  "is_ws c = (c = CHR '' '' \<or> c = CHR 0x09 \<or> c = CHR 0x0A \<or> c = CHR 0x0D)"

definition skip_ws :: "string \<Rightarrow> string" where
  "skip_ws s = dropWhile is_ws s"

definition is_digit :: "char \<Rightarrow> bool" where
  "is_digit c = (c \<in> set ''0123456789'')"

definition is_hex :: "char \<Rightarrow> bool" where
  "is_hex c = (c \<in> set ''0123456789abcdefABCDEF'')"

definition unescape :: "char \<Rightarrow> char option" where
  "unescape c =
     (if c = CHR 0x22 then Some (CHR 0x22)
      else if c = CHR 0x5C then Some (CHR 0x5C)
      else if c = CHR ''/'' then Some (CHR ''/'')
      else if c = CHR ''b'' then Some (CHR 0x08)
      else if c = CHR ''f'' then Some (CHR 0x0C)
      else if c = CHR ''n'' then Some (CHR 0x0A)
      else if c = CHR ''r'' then Some (CHR 0x0D)
      else if c = CHR ''t'' then Some (CHR 0x09)
      else None)"

text \<open>The characters of a string after its opening quote, up to the closing quote.\<close>

fun parse_chars :: "string \<Rightarrow> (string \<times> string) option" where
  "parse_chars [] = None"
| "parse_chars [c] = (if c = CHR 0x22 then Some ([], []) else None)"
| "parse_chars (c # d # cs) =
     (if c = CHR 0x22 then Some ([], d # cs)
      else if c = CHR 0x5C then
        (if d = CHR ''u'' then
           (if 4 \<le> length cs \<and> list_all is_hex (take 4 cs)
            then map_option (\<lambda>(str, r). (c # d # take 4 cs @ str, r)) (parse_chars (drop 4 cs))
            else None)
         else
           (case unescape d of
              None \<Rightarrow> None
            | Some ch \<Rightarrow> map_option (\<lambda>(str, r). (ch # str, r)) (parse_chars cs)))
      else if (of_char c :: nat) < 0x20 then None
      else map_option (\<lambda>(str, r). (c # str, r)) (parse_chars (d # cs)))"

definition digits_of :: "string \<Rightarrow> string \<times> string" where
  "digits_of s = (takeWhile is_digit s, dropWhile is_digit s)"

definition parse_int_part :: "string \<Rightarrow> (string \<times> string) option" where
  "parse_int_part s =
     (case digits_of s of
        (ds, r) \<Rightarrow>
          if ds = [] then None
          else if hd ds = CHR ''0'' then Some (''0'', tl ds @ r)
          else Some (ds, r))"

definition parse_frac_part :: "string \<Rightarrow> (string \<times> string) option" where
  "parse_frac_part s =
     (case s of
        [] \<Rightarrow> Some ([], [])
      | c # cs \<Rightarrow>
          if c = CHR ''.'' then
            (case digits_of cs of (ds, r) \<Rightarrow> if ds = [] then None else Some (c # ds, r))
          else Some ([], s))"

definition parse_exp_part :: "string \<Rightarrow> (string \<times> string) option" where
  "parse_exp_part s =
     (case s of
        [] \<Rightarrow> Some ([], [])
      | c # cs \<Rightarrow>
          if c = CHR ''e'' \<or> c = CHR ''E'' then
            (let (sign, rest) =
               (case cs of
                  [] \<Rightarrow> ([], [])
                | x # xs \<Rightarrow> if x = CHR ''+'' \<or> x = CHR ''-'' then ([x], xs) else ([], cs))
             in case digits_of rest of
                  (ds, r) \<Rightarrow> if ds = [] then None else Some (c # sign @ ds, r))
          else Some ([], s))"

definition parse_number :: "string \<Rightarrow> (json \<times> string) option" where
  "parse_number s =
     (let (sign, s1) =
        (case s of [] \<Rightarrow> ([], []) | c # cs \<Rightarrow> if c = CHR ''-'' then ([c], cs) else ([], s))
      in case parse_int_part s1 of
           None \<Rightarrow> None
         | Some (ip, s2) \<Rightarrow>
             (case parse_frac_part s2 of
                None \<Rightarrow> None
              | Some (fp, s3) \<Rightarrow>
                  (case parse_exp_part s3 of
                     None \<Rightarrow> None
                   | Some (ep, s4) \<Rightarrow> Some (JNumber (sign @ ip @ fp @ ep), s4))))"

definition parse_literal :: "string \<Rightarrow> (json \<times> string) option" where
  "parse_literal s =
     (if take 4 s = ''true'' then Some (JBool True, drop 4 s)
      else if take 5 s = ''false'' then Some (JBool False, drop 5 s)
      else if take 4 s = ''null'' then Some (JNull, drop 4 s)
      else parse_number s)"

fun parse_value :: "nat \<Rightarrow> string \<Rightarrow> (json \<times> string) option"
  and parse_elements :: "nat \<Rightarrow> string \<Rightarrow> (json list \<times> string) option"
  and parse_members :: "nat \<Rightarrow> string \<Rightarrow> ((string \<times> json) list \<times> string) option" where
  "parse_value 0 s = None"
| "parse_value (Suc n) s =
     (case skip_ws s of
        [] \<Rightarrow> None
      | c # cs \<Rightarrow>
          if c = CHR ''{'' then
            (case skip_ws cs of
               [] \<Rightarrow> None
             | d # ds \<Rightarrow>
                 if d = CHR ''}'' then Some (JObject [], ds)
                 else map_option (\<lambda>(kvs, r). (JObject kvs, r)) (parse_members n cs))
          else if c = CHR ''['' then
            (case skip_ws cs of
               [] \<Rightarrow> None
             | d # ds \<Rightarrow>
                 if d = CHR '']'' then Some (JArray [], ds)
                 else map_option (\<lambda>(vs, r). (JArray vs, r)) (parse_elements n cs))
          else if c = CHR 0x22 then
            map_option (\<lambda>(str, r). (JString str, r)) (parse_chars cs)
          else parse_literal (c # cs))"
| "parse_elements 0 s = None"
| "parse_elements (Suc n) s =
     (case parse_value n s of
        None \<Rightarrow> None
      | Some (v, r) \<Rightarrow>
          (case skip_ws r of
             [] \<Rightarrow> None
           | c # cs \<Rightarrow>
               if c = CHR '','' then
                 map_option (\<lambda>(vs, r'). (v # vs, r')) (parse_elements n cs)
               else if c = CHR '']'' then Some ([v], cs)
               else None))"
| "parse_members 0 s = None"
| "parse_members (Suc n) s =
     (case skip_ws s of
        [] \<Rightarrow> None
      | q # qs \<Rightarrow>
          if q = CHR 0x22 then
            (case parse_chars qs of
               None \<Rightarrow> None
             | Some (k, r) \<Rightarrow>
                 (case skip_ws r of
                    [] \<Rightarrow> None
                  | c # cs \<Rightarrow>
                      if c = CHR '':'' then
                        (case parse_value n cs of
                           None \<Rightarrow> None
                         | Some (v, r1) \<Rightarrow>
                             (case skip_ws r1 of
                                [] \<Rightarrow> None
                              | d # ds \<Rightarrow>
                                  if d = CHR '','' then
                                    map_option (\<lambda>(kvs, r2). ((k, v) # kvs, r2))
                                      (parse_members n ds)
                                  else if d = CHR ''}'' then Some ([(k, v)], ds)
                                  else None))
                      else None))
          else None)"

definition json_parse :: "string \<Rightarrow> json option" where
  "json_parse s =
     (case parse_value (2 * length s + 2) s of
        None \<Rightarrow> None
      | Some (v, r) \<Rightarrow> if skip_ws r = [] then Some v else None)"

text \<open>Example texts: \<open>quoted s\<close> is \<open>s\<close> between double quotes.\<close>

definition quoted :: "string \<Rightarrow> string" where
  "quoted s = CHR 0x22 # s @ [CHR 0x22]"

text \<open>
  An environment in which everything succeeds: the examples change one field at a time.
  Every model answers with one step.
\<close>

definition calm_env :: env where
  "calm_env =
     \<lparr>JSON_parse = json_parse,
      GEMINI_API_KEY = Some ''key'',
      SUPABASE_URL = Some ''https://db.example'',
      readFile = (\<lambda>p. Inr p),
      generateContent = (\<lambda>i m imgs. Inr (''{'' @ quoted ''steps'' @ '':[{}]}'')),
      storage_download = (\<lambda>p. Inr ''bytes''),
      save_temp = (\<lambda>p b. Inr ''/tmp/video-1/in.mp4''),
      extractFrames = (\<lambda>p. Inr [''f1.jpg'', ''f2.jpg'', ''f3.jpg'']),
      upload_frame = (\<lambda>i p sp. Uploaded),
      date_workflow = 1000,
      date_video = 1001\<rparr>"


text \<open>
  A job fails before the upload stage: the storage path is missing or empty, or the
  download, the extraction or the model call fails.
\<close>

definition fails_before_upload :: "env \<Rightarrow> string list \<Rightarrow> string option \<Rightarrow> bool" where
  "fails_before_upload e models storagePath =
     (case storagePath of
        None \<Rightarrow> True
      | Some p \<Rightarrow>
          (case downloadVideoFromSupabase e p of
             Inl err \<Rightarrow> True
           | Inr filePath \<Rightarrow>
               (case extractFrames e filePath of
                  Inl err \<Rightarrow> True
                | Inr paths \<Rightarrow> paths = [] \<or> isl (analyzeFramesWithGemini e models paths))))"

text \<open>The message the job stores for a thrown value.\<close>

definition stored_message :: "thrown \<Rightarrow> message" where
  "stored_message err = (case err of Error m st \<Rightarrow> m | NonError st \<Rightarrow> Text ''Unknown error'')"


text \<open>
  Databases for the examples: one uploaded video and its pending workflow; the same with a
  video that has no storage path; the same with a video whose storage path is empty.
\<close>

definition db0 :: database where
  "db0 = \<lparr>workVideos = [1 \<mapsto> \<lparr>video_status = ''uploaded'', progress = 0,
                                 storage_path = Some ''u/v.mp4'', error_message = None,
                                 video_completed_at = None\<rparr>],
          workWorkflows = [2 \<mapsto> \<lparr>workflow_status = ''pending'',
                                    workflow_completed_at = None\<rparr>],
          workAnalysisSteps = []\<rparr>"

definition db_no_path :: database where
  "db_no_path = db0\<lparr>workVideos := [1 \<mapsto> \<lparr>video_status = ''uploaded'', progress = 0,
                                 storage_path = None, error_message = None,
                                 video_completed_at = None\<rparr>]\<rparr>"

definition db_empty_path :: database where
  "db_empty_path = db0\<lparr>workVideos := [1 \<mapsto> \<lparr>video_status = ''uploaded'', progress = 0,
                                 storage_path = Some [], error_message = None,
                                 video_completed_at = None\<rparr>]\<rparr>"

definition three_steps_text :: string where
  "three_steps_text =
     ''{'' @ quoted ''steps'' @ '':[{'' @ quoted ''action'' @ '':'' @ quoted ''a'' @ ''},{'' @
     quoted ''action'' @ '':'' @ quoted ''b'' @ ''},{'' @
     quoted ''action'' @ '':'' @ quoted ''c'' @ ''}]}''"

text \<open>Three frames, three steps from the model, and the upload of the second frame fails.\<close>

definition second_upload_fails_env :: env where
  "second_upload_fails_env =
     calm_env\<lparr>generateContent := (\<lambda>i m imgs. Inr three_steps_text),
              upload_frame := (\<lambda>i p sp. if i = 1 then Upload_error else Uploaded)\<rparr>"


text \<open>
  Example responses: an object with an empty array of steps; the same with a member whose
  string holds three back-ticks; the same with a member whose string quotes a fenced block.
\<close>

definition steps_text :: string where
  "steps_text = ''{'' @ quoted ''steps'' @ '':[]}''"

definition steps_with_ticks_text :: string where
  "steps_with_ticks_text =
     ''{'' @ quoted ''steps'' @ '':[],'' @ quoted ''d'' @ '':'' @ quoted (''a'' @ fence @ ''b'') @ ''}''"

definition steps_quoting_block_text :: string where
  "steps_quoting_block_text =
     ''{'' @ quoted ''steps'' @ '':[],'' @ quoted ''d'' @ '':'' @
     quoted (fence @ ''json 1 '' @ fence) @ ''}''"


text \<open>Environments in which every model answers with three steps, and with no step.\<close>

definition three_steps_env :: env where
  "three_steps_env = calm_env\<lparr>generateContent := (\<lambda>i m imgs. Inr three_steps_text)\<rparr>"

definition no_steps_env :: env where
  "no_steps_env = calm_env\<lparr>generateContent := (\<lambda>i m imgs. Inr steps_text)\<rparr>"

text \<open>The trace of attempts that failed and were each followed by the wait.\<close>

definition retries :: "string list \<Rightarrow> gemini_event list" where
  "retries ms = concat (map (\<lambda>m. [Try m, Wait 1000]) ms)"

text \<open>
  Environments for the fallback: the first two attempts are answered with status 503 and
  the third with three steps; the first attempt is answered with status 400; every attempt
  is answered with status 503; the first attempt is answered with an object that has no
  steps, or with prose, and the second with an object that has them.
\<close>

definition two_unavailable_env :: env where
  "two_unavailable_env =
     calm_env\<lparr>generateContent :=
       (\<lambda>i m imgs. if i < 2 then Inl (Error (Text ''The model is overloaded'') (Some 503))
                    else Inr three_steps_text)\<rparr>"

definition bad_request_env :: env where
  "bad_request_env =
     calm_env\<lparr>generateContent :=
       (\<lambda>i m imgs. if i = 0 then Inl (Error (Text ''Bad request'') (Some 400))
                    else Inr steps_text)\<rparr>"

definition all_unavailable_env :: env where
  "all_unavailable_env =
     calm_env\<lparr>generateContent :=
       (\<lambda>i m imgs. Inl (Error (Text (''overloaded, attempt '' @ string_of_nat i)) (Some 503)))\<rparr>"

definition first_answer_no_steps_env :: env where
  "first_answer_no_steps_env =
     calm_env\<lparr>generateContent :=
       (\<lambda>i m imgs. if i = 0 then Inr ''{}'' else Inr steps_text)\<rparr>"

definition first_answer_prose_env :: env where
  "first_answer_prose_env =
     calm_env\<lparr>generateContent :=
       (\<lambda>i m imgs. if i = 0 then Inr ''Sorry, no steps found.'' else Inr steps_text)\<rparr>"


section \<open>Properties of the rate limiter\<close>

lemma cleanup_map_le: "cleanupExpiredEntries now store \<subseteq>\<^sub>m store"
  by (auto simp: cleanupExpiredEntries_def map_le_def split: option.splits if_splits)

lemma cleanup_lookup:
  "cleanupExpiredEntries now store k =
     (case store k of None \<Rightarrow> None
      | Some e \<Rightarrow> if now - firstAttempt e > WINDOW_MS then None else Some e)"
  by (simp add: cleanupExpiredEntries_def)

lemma check_store_map_le:
  "snd (checkPasswordChangeRateLimit rnd ns now store u) \<subseteq>\<^sub>m store"
  by (auto simp: checkPasswordChangeRateLimit_def Let_def cleanup_map_le
      split: option.splits)

lemma record_attempts_in_window:
  assumes "store u = Some e" and "\<forall>t \<in> set ts. t - firstAttempt e \<le> WINDOW_MS"
  shows "record_attempts ts store u u
           = Some (e\<lparr>count := count e + int (length ts)\<rparr>)"
  using assms
proof (induction ts arbitrary: store e)
  case Nil
  then show ?case by simp
next
  case (Cons t ts)
  let ?e1 = "e\<lparr>count := count e + 1\<rparr>"
  have step: "recordPasswordChangeAttempt t store u u = Some ?e1"
    using Cons.prems by (simp add: recordPasswordChangeAttempt_def)
  have "record_attempts ts (recordPasswordChangeAttempt t store u) u u
          = Some (?e1\<lparr>count := count ?e1 + int (length ts)\<rparr>)"
    using Cons.IH [of "recordPasswordChangeAttempt t store u" ?e1] step Cons.prems by simp
  then show ?case by simp
qed

lemma record_fresh_window:
  assumes "store u = None \<or> (\<exists>e. store u = Some e \<and> t - firstAttempt e > WINDOW_MS)"
  shows "recordPasswordChangeAttempt t store u u = Some \<lparr>count = 1, firstAttempt = t\<rparr>"
  using assms by (auto simp: recordPasswordChangeAttempt_def)

lemma record_attempts_fresh:
  assumes "store u = None \<or> (\<exists>e. store u = Some e \<and> t1 - firstAttempt e > WINDOW_MS)"
    and "\<forall>t \<in> set ts. t - t1 \<le> WINDOW_MS"
  shows "record_attempts (t1 # ts) store u u
           = Some \<lparr>count = 1 + int (length ts), firstAttempt = t1\<rparr>"
proof -
  let ?e = "\<lparr>count = 1, firstAttempt = t1\<rparr>"
  have "recordPasswordChangeAttempt t1 store u u = Some ?e"
    using assms(1) by (auto simp: recordPasswordChangeAttempt_def)
  with record_attempts_in_window [of "recordPasswordChangeAttempt t1 store u" u ?e ts]
  show ?thesis using assms(2) by simp
qed

lemma check_live_entry:
  assumes "store u = Some e" and "now - firstAttempt e \<le> WINDOW_MS" and "ns \<le> now"
  shows "checkPasswordChangeRateLimit rnd ns now store u
           = (\<lparr>allowed = count e < MAX_ATTEMPTS,
               remainingAttempts = max 0 (MAX_ATTEMPTS - count e),
               resetTime = firstAttempt e + WINDOW_MS\<rparr>,
              if rnd < 0.1 then cleanupExpiredEntries ns store else store)"
  using assms by (simp add: checkPasswordChangeRateLimit_def Let_def cleanup_lookup)

lemma check_live_entry_kept:
  assumes "store u = Some e" and "now - firstAttempt e \<le> WINDOW_MS" and "ns \<le> now"
  shows "snd (checkPasswordChangeRateLimit rnd ns now store u) u = Some e"
  using assms by (simp add: check_live_entry cleanup_lookup)

lemma check_fresh:
  assumes "store u = None \<or> (\<exists>e. store u = Some e \<and> now - firstAttempt e > WINDOW_MS)"
  shows "fst (checkPasswordChangeRateLimit rnd ns now store u)
           = \<lparr>allowed = True, remainingAttempts = MAX_ATTEMPTS, resetTime = now + WINDOW_MS\<rparr>"
  using assms
  by (auto simp: checkPasswordChangeRateLimit_def Let_def cleanup_lookup split: option.splits)

lemma require_blocked:
  assumes "store u = Some e" and "MAX_ATTEMPTS \<le> count e"
    and "nc - firstAttempt e \<le> WINDOW_MS" and "ns \<le> nc"
  shows "requirePasswordChangeRateLimit rnd ns nc nt nr store u
           = (Inl \<lparr>minutesUntilReset =
                      \<lceil>real_of_int (firstAttempt e + WINDOW_MS - nt) / 60000\<rceil>,
                    payload_resetTime = firstAttempt e + WINDOW_MS,
                    payload_remainingAttempts = 0,
                    response_status = 429\<rparr>,
              if rnd < 0.1 then cleanupExpiredEntries ns store else store)"
  using assms
  by (simp add: requirePasswordChangeRateLimit_def check_live_entry [of store u e nc ns rnd])


lemma require_allowed:
  assumes "store u = Some e" and "count e < MAX_ATTEMPTS"
    and "nc - firstAttempt e \<le> WINDOW_MS" and "ns \<le> nc"
    and "nr - firstAttempt e \<le> WINDOW_MS"
  shows "requirePasswordChangeRateLimit rnd ns nc nt nr store u
           = (Inr (), (if rnd < 0.1 then cleanupExpiredEntries ns store else store)
                        (u \<mapsto> e\<lparr>count := count e + 1\<rparr>))"
proof -
  let ?s1 = "if rnd < 0.1 then cleanupExpiredEntries ns store else store"
  have kept: "?s1 u = Some e"
    using assms(1,3,4) by (simp add: cleanup_lookup)
  have "recordPasswordChangeAttempt nr ?s1 u = ?s1(u \<mapsto> e\<lparr>count := count e + 1\<rparr>)"
    using kept assms(5) by (simp add: recordPasswordChangeAttempt_def)
  then show ?thesis
    using assms(2) check_live_entry [of store u e nc ns rnd] assms(1,3,4)
    by (simp add: requirePasswordChangeRateLimit_def)
qed

lemma require_first:
  assumes "store u = None"
  shows "requirePasswordChangeRateLimit rnd ns nc nt nr store u
           = (Inr (), (if rnd < 0.1 then cleanupExpiredEntries ns store else store)
                        (u \<mapsto> \<lparr>count = 1, firstAttempt = nr\<rparr>))"
  using assms
  by (simp add: requirePasswordChangeRateLimit_def checkPasswordChangeRateLimit_def
      recordPasswordChangeAttempt_def cleanup_lookup Let_def)

lemma require_run_allowed:
  assumes "store u = Some e" and "count e + int (length calls) \<le> MAX_ATTEMPTS"
    and "\<forall>(rnd, ns, nc, nt, nr) \<in> set calls.
           ns \<le> nc \<and> nc - firstAttempt e \<le> WINDOW_MS \<and> nr - firstAttempt e \<le> WINDOW_MS"
  shows "fst (require_repeatedly calls store u) = replicate (length calls) (Inr ())
       \<and> snd (require_repeatedly calls store u) u
           = Some (e\<lparr>count := count e + int (length calls)\<rparr>)"
  using assms
proof (induction calls arbitrary: store e)
  case Nil
  then show ?case by simp
next
  case (Cons c calls)
  obtain rnd ns nc nt nr where c: "c = (rnd, ns, nc, nt, nr)"
    by (cases c) auto
  define e1 where "e1 = e\<lparr>count := count e + 1\<rparr>"
  define s1 where
    "s1 = (if rnd < 0.1 then cleanupExpiredEntries ns store else store)(u \<mapsto> e1)"
  have ok: "ns \<le> nc" "nc - firstAttempt e \<le> WINDOW_MS" "nr - firstAttempt e \<le> WINDOW_MS"
    using Cons.prems(3) c by auto
  have lt: "count e < MAX_ATTEMPTS" using Cons.prems(2) by simp
  have step: "requirePasswordChangeRateLimit rnd ns nc nt nr store u = (Inr (), s1)"
    using require_allowed [of store u e nc ns nr rnd nt] Cons.prems(1) lt ok
    by (simp add: s1_def e1_def)
  have s1: "s1 u = Some e1" by (simp add: s1_def)
  have cnt: "count e1 + int (length calls) \<le> MAX_ATTEMPTS"
    using Cons.prems(2) by (simp add: e1_def)
  have rest: "\<forall>(rnd, ns, nc, nt, nr) \<in> set calls.
           ns \<le> nc \<and> nc - firstAttempt e1 \<le> WINDOW_MS \<and> nr - firstAttempt e1 \<le> WINDOW_MS"
    using Cons.prems(3) by (simp add: e1_def)
  note IH = Cons.IH [of s1 e1, OF s1 cnt rest]
  have unfold: "require_repeatedly (c # calls) store u
           = (Inr () # fst (require_repeatedly calls s1 u), snd (require_repeatedly calls s1 u))"
    by (simp add: c step split: prod.splits)
  have e: "e1\<lparr>count := count e1 + int (length calls)\<rparr>
             = e\<lparr>count := count e + int (length (c # calls))\<rparr>"
    by (simp add: e1_def)
  show ?case
    using IH by (simp only: unfold e [symmetric]) simp
qed

lemma require_repeatedly_append:
  "require_repeatedly (xs @ ys) store u
     = (fst (require_repeatedly xs store u)
          @ fst (require_repeatedly ys (snd (require_repeatedly xs store u)) u),
        snd (require_repeatedly ys (snd (require_repeatedly xs store u)) u))"
  by (induction xs arbitrary: store) (auto split: prod.splits)

lemma guarded_run:
  assumes "store u = None" and "length calls = 4"
    and "\<forall>(rnd, ns, nc, nt, nr) \<in> set calls.
           ns \<le> nc \<and> nc - nr1 \<le> WINDOW_MS \<and> nr - nr1 \<le> WINDOW_MS"
    and "ns6 \<le> nc6" and "nc6 - nr1 \<le> WINDOW_MS"
  shows "fst (require_repeatedly
                ((rnd1, ns1, nc1, nt1, nr1) # calls @ [(rnd6, ns6, nc6, nt6, nr6)]) store u)
           = replicate 5 (Inr ()) @
             [Inl \<lparr>minutesUntilReset = \<lceil>real_of_int (nr1 + WINDOW_MS - nt6) / 60000\<rceil>,
                    payload_resetTime = nr1 + WINDOW_MS,
                    payload_remainingAttempts = 0,
                    response_status = 429\<rparr>]"
proof -
  define e1 where "e1 = \<lparr>count = 1, firstAttempt = nr1\<rparr>"
  define s1 where
    "s1 = (if rnd1 < 0.1 then cleanupExpiredEntries ns1 store else store)(u \<mapsto> e1)"
  define payload where
    "payload = \<lparr>minutesUntilReset = \<lceil>real_of_int (nr1 + WINDOW_MS - nt6) / 60000\<rceil>,
                payload_resetTime = nr1 + WINDOW_MS,
                payload_remainingAttempts = 0,
                response_status = 429\<rparr>"
  have first: "requirePasswordChangeRateLimit rnd1 ns1 nc1 nt1 nr1 store u = (Inr (), s1)"
    using require_first [of store u rnd1 ns1 nc1 nt1 nr1] assms(1)
    by (simp add: s1_def e1_def)
  have s1: "s1 u = Some e1" by (simp add: s1_def)
  have cnt: "count e1 + int (length calls) \<le> MAX_ATTEMPTS"
    using assms(2) by (simp add: MAX_ATTEMPTS_def e1_def)
  have tm: "\<forall>(rnd, ns, nc, nt, nr) \<in> set calls.
           ns \<le> nc \<and> nc - firstAttempt e1 \<le> WINDOW_MS \<and> nr - firstAttempt e1 \<le> WINDOW_MS"
    using assms(3) by (simp add: e1_def)
  note mid = require_run_allowed [of s1 u e1 calls, OF s1 cnt tm]
  define s5 where "s5 = snd (require_repeatedly calls s1 u)"
  define e5 where "e5 = \<lparr>count = 5, firstAttempt = nr1\<rparr>"
  have s5: "s5 u = Some e5"
    using mid assms(2) by (simp add: s5_def e5_def e1_def)
  have last: "requirePasswordChangeRateLimit rnd6 ns6 nc6 nt6 nr6 s5 u
           = (Inl payload, if rnd6 < 0.1 then cleanupExpiredEntries ns6 s5 else s5)"
    using require_blocked [of s5 u e5 nc6 ns6 rnd6 nt6 nr6] s5 assms(4,5)
    by (simp add: MAX_ATTEMPTS_def e5_def payload_def)
  have one: "fst (require_repeatedly [(rnd6, ns6, nc6, nt6, nr6)] s5 u) = [Inl payload]"
    by (simp add: last)
  have tail: "fst (require_repeatedly (calls @ [(rnd6, ns6, nc6, nt6, nr6)]) s1 u)
           = replicate 4 (Inr ()) @ [Inl payload]"
    using mid assms(2) one by (simp add: require_repeatedly_append s5_def)
  have "fst (require_repeatedly
                ((rnd1, ns1, nc1, nt1, nr1) # calls @ [(rnd6, ns6, nc6, nt6, nr6)]) store u)
           = Inr () # fst (require_repeatedly (calls @ [(rnd6, ns6, nc6, nt6, nr6)]) s1 u)"
    by (simp add: first split: prod.splits)
  then show ?thesis
    by (simp only: tail payload_def) (simp add: numeral_eq_Suc)
qed

text \<open>
  Claim C4. Five attempts recorded for one user inside one window (the first opens the
  window at \<open>t1\<close>, the other four are no later than \<open>t1 + WINDOW_MS\<close>) leave the user
  blocked while the window lasts: the check reports \<open>allowed = False\<close>, and the next
  guarded attempt throws the 429 payload with the reset instant \<open>t1 + WINDOW_MS\<close> and the
  minutes left until then, rounded up. The clock readings of one call are taken in call
  order (\<open>now_sweep \<le> now_check\<close>). Likewise for attempts that all go through the guard:
  for a user without an entry, five guarded attempts inside one window return normally and
  the sixth throws.
\<close>

theorem rate_limit_blocks_after_max_attempts:
  "((store u = None \<or> (\<exists>e. store u = Some e \<and> t1 - firstAttempt e > WINDOW_MS))
      \<and> length ts = 4 \<and> (\<forall>t \<in> set ts. t - t1 \<le> WINDOW_MS)
      \<and> now_sweep \<le> now_check \<and> now_check - t1 \<le> WINDOW_MS \<longrightarrow>
      allowed (fst (checkPasswordChangeRateLimit rnd now_sweep now_check
                      (record_attempts (t1 # ts) store u) u)) = False
    \<and> fst (requirePasswordChangeRateLimit rnd now_sweep now_check now_throw now_record
              (record_attempts (t1 # ts) store u) u)
        = Inl \<lparr>minutesUntilReset = \<lceil>real_of_int (t1 + WINDOW_MS - now_throw) / 60000\<rceil>,
                payload_resetTime = t1 + WINDOW_MS,
                payload_remainingAttempts = 0,
                response_status = 429\<rparr>)
   \<and> (store u = None \<and> length calls = 4
      \<and> (\<forall>(rnd, ns, nc, nt, nr) \<in> set calls.
            ns \<le> nc \<and> nc - nr1 \<le> WINDOW_MS \<and> nr - nr1 \<le> WINDOW_MS)
      \<and> ns6 \<le> nc6 \<and> nc6 - nr1 \<le> WINDOW_MS \<longrightarrow>
      fst (require_repeatedly
             ((rnd1, ns1, nc1, nt1, nr1) # calls @ [(rnd6, ns6, nc6, nt6, nr6)]) store u)
        = replicate 5 (Inr ()) @
          [Inl \<lparr>minutesUntilReset = \<lceil>real_of_int (nr1 + WINDOW_MS - nt6) / 60000\<rceil>,
                 payload_resetTime = nr1 + WINDOW_MS,
                 payload_remainingAttempts = 0,
                 response_status = 429\<rparr>])"
proof (intro conjI impI)
  assume h: "(store u = None \<or> (\<exists>e. store u = Some e \<and> t1 - firstAttempt e > WINDOW_MS))
      \<and> length ts = 4 \<and> (\<forall>t \<in> set ts. t - t1 \<le> WINDOW_MS)
      \<and> now_sweep \<le> now_check \<and> now_check - t1 \<le> WINDOW_MS"
  define s where "s = record_attempts (t1 # ts) store u"
  define e where "e = \<lparr>count = 5, firstAttempt = t1\<rparr>"
  have entry: "s u = Some e"
    using record_attempts_fresh [of store u t1 ts] h by (simp add: s_def e_def)
  have live: "now_check - firstAttempt e \<le> WINDOW_MS"
    using h by (simp add: e_def)
  have full: "MAX_ATTEMPTS \<le> count e"
    by (simp add: MAX_ATTEMPTS_def e_def)
  have ord: "now_sweep \<le> now_check" using h by simp
  show "allowed (fst (checkPasswordChangeRateLimit rnd now_sweep now_check
                      (record_attempts (t1 # ts) store u) u)) = False"
    using check_live_entry [of s u e now_check now_sweep rnd] entry live ord
    by (simp add: MAX_ATTEMPTS_def e_def s_def)
  show "fst (requirePasswordChangeRateLimit rnd now_sweep now_check now_throw now_record
              (record_attempts (t1 # ts) store u) u)
        = Inl \<lparr>minutesUntilReset = \<lceil>real_of_int (t1 + WINDOW_MS - now_throw) / 60000\<rceil>,
                payload_resetTime = t1 + WINDOW_MS,
                payload_remainingAttempts = 0,
                response_status = 429\<rparr>"
    using require_blocked [of s u e now_check now_sweep rnd now_throw now_record]
      entry live full ord by (simp add: e_def s_def)
next
  assume h: "store u = None \<and> length calls = 4
      \<and> (\<forall>(rnd, ns, nc, nt, nr) \<in> set calls.
            ns \<le> nc \<and> nc - nr1 \<le> WINDOW_MS \<and> nr - nr1 \<le> WINDOW_MS)
      \<and> ns6 \<le> nc6 \<and> nc6 - nr1 \<le> WINDOW_MS"
  show "fst (require_repeatedly
             ((rnd1, ns1, nc1, nt1, nr1) # calls @ [(rnd6, ns6, nc6, nt6, nr6)]) store u)
        = replicate 5 (Inr ()) @
          [Inl \<lparr>minutesUntilReset = \<lceil>real_of_int (nr1 + WINDOW_MS - nt6) / 60000\<rceil>,
                 payload_resetTime = nr1 + WINDOW_MS,
                 payload_remainingAttempts = 0,
                 response_status = 429\<rparr>]"
  proof (rule guarded_run)
    show "store u = None" using h by simp
    show "length calls = 4" using h by simp
    show "\<forall>(rnd, ns, nc, nt, nr) \<in> set calls.
            ns \<le> nc \<and> nc - nr1 \<le> WINDOW_MS \<and> nr - nr1 \<le> WINDOW_MS"
      using h by simp
    show "ns6 \<le> nc6" using h by simp
    show "nc6 - nr1 \<le> WINDOW_MS" using h by simp
  qed
qed

theorem rate_limit_blocks_after_max_attempts_witness:
  "allowed (fst (checkPasswordChangeRateLimit 0.5 5000 5000
              (record_attempts [0, 1000, 2000, 3000, 4000] Map.empty ''alice'') ''alice''))
     = False
   \<and> fst (requirePasswordChangeRateLimit 0.5 5000 5000 5000 5000
              (record_attempts [0, 1000, 2000, 3000, 4000] Map.empty ''alice'') ''alice'')
       = Inl \<lparr>minutesUntilReset = 15, payload_resetTime = 900000,
               payload_remainingAttempts = 0, response_status = 429\<rparr>
   \<and> fst (require_repeatedly
            [(0.5, 0, 0, 0, 0), (0.5, 1000, 1000, 1000, 1000), (0.05, 2000, 2000, 2000, 2000),
             (0.5, 3000, 3000, 3000, 3000), (0.5, 4000, 4000, 4000, 4000),
             (0.5, 5000, 5000, 5000, 5000)] Map.empty ''alice'')
       = [Inr (), Inr (), Inr (), Inr (), Inr (),
          Inl \<lparr>minutesUntilReset = 15, payload_resetTime = 900000,
                payload_remainingAttempts = 0, response_status = 429\<rparr>]"
proof -
  note T = rate_limit_blocks_after_max_attempts
    [where store = Map.empty and u = "''alice''" and ?t1.0 = 0
       and ts = "[1000, 2000, 3000, 4000]" and now_sweep = 5000 and now_check = 5000
       and rnd = "0.5" and now_throw = 5000 and now_record = 5000
       and calls = "[(0.5, 1000, 1000, 1000, 1000), (0.05, 2000, 2000, 2000, 2000),
             (0.5, 3000, 3000, 3000, 3000), (0.5, 4000, 4000, 4000, 4000)]"
       and ?nr1.0 = 0 and ?rnd1.0 = "0.5" and ?ns1.0 = 0 and ?nc1.0 = 0 and ?nt1.0 = 0
       and ?rnd6.0 = "0.5" and ?ns6.0 = 5000 and ?nc6.0 = 5000 and ?nt6.0 = 5000
       and ?nr6.0 = 5000]
  have a: "allowed (fst (checkPasswordChangeRateLimit 0.5 5000 5000
              (record_attempts [0, 1000, 2000, 3000, 4000] Map.empty ''alice'') ''alice''))
     = False
   \<and> fst (requirePasswordChangeRateLimit 0.5 5000 5000 5000 5000
              (record_attempts [0, 1000, 2000, 3000, 4000] Map.empty ''alice'') ''alice'')
       = Inl \<lparr>minutesUntilReset = 15, payload_resetTime = 900000,
               payload_remainingAttempts = 0, response_status = 429\<rparr>"
    using T [THEN conjunct1] by (simp add: WINDOW_MS_def)
  have b: "fst (require_repeatedly
            [(0.5, 0, 0, 0, 0), (0.5, 1000, 1000, 1000, 1000), (0.05, 2000, 2000, 2000, 2000),
             (0.5, 3000, 3000, 3000, 3000), (0.5, 4000, 4000, 4000, 4000),
             (0.5, 5000, 5000, 5000, 5000)] Map.empty ''alice'')
       = [Inr (), Inr (), Inr (), Inr (), Inr (),
          Inl \<lparr>minutesUntilReset = 15, payload_resetTime = 900000,
                payload_remainingAttempts = 0, response_status = 429\<rparr>]"
  proof -
    have r: "replicate 5 (Inr ()) = [Inr (), Inr (), Inr (), Inr (), Inr () :: TooManyRequests + unit]"
      by (simp add: numeral_eq_Suc)
    show ?thesis
      using T [THEN conjunct2] by (simp only: r) (simp add: WINDOW_MS_def)
  qed
  from a b show ?thesis by simp
qed

text \<open>
  Claim C5. With the clock readings of the call in call order, the check answers from the
  entry it finds: no entry, or an entry older than the window, gives the full allowance
  and a reset instant one window from now; a live entry gives \<open>count < 5\<close>,
  \<open>max 0 (5 - count)\<close> and \<open>firstAttempt + WINDOW_MS\<close>. The check adds no entry to the store.
  An attempt recorded at \<open>t\<close> (no earlier than the entry it may find) and checked more than a
  window later is answered with the full allowance.
\<close>

theorem check_answers_from_entry:
  assumes "now_sweep \<le> now"
  shows "fst (checkPasswordChangeRateLimit rnd now_sweep now store u)
           = (case store u of
                None \<Rightarrow> \<lparr>allowed = True, remainingAttempts = MAX_ATTEMPTS,
                          resetTime = now + WINDOW_MS\<rparr>
              | Some e \<Rightarrow>
                  if now - firstAttempt e > WINDOW_MS
                  then \<lparr>allowed = True, remainingAttempts = MAX_ATTEMPTS,
                         resetTime = now + WINDOW_MS\<rparr>
                  else \<lparr>allowed = count e < MAX_ATTEMPTS,
                         remainingAttempts = max 0 (MAX_ATTEMPTS - count e),
                         resetTime = firstAttempt e + WINDOW_MS\<rparr>)
       \<and> dom (snd (checkPasswordChangeRateLimit rnd now_sweep now store u)) \<subseteq> dom store
       \<and> ((\<forall>e. store u = Some e \<longrightarrow> firstAttempt e \<le> t) \<and> now - t > WINDOW_MS \<longrightarrow>
            fst (checkPasswordChangeRateLimit rnd now_sweep now
                   (recordPasswordChangeAttempt t store u) u)
              = \<lparr>allowed = True, remainingAttempts = MAX_ATTEMPTS,
                  resetTime = now + WINDOW_MS\<rparr>)"
proof (intro conjI impI)
  show "fst (checkPasswordChangeRateLimit rnd now_sweep now store u)
           = (case store u of
                None \<Rightarrow> \<lparr>allowed = True, remainingAttempts = MAX_ATTEMPTS,
                          resetTime = now + WINDOW_MS\<rparr>
              | Some e \<Rightarrow>
                  if now - firstAttempt e > WINDOW_MS
                  then \<lparr>allowed = True, remainingAttempts = MAX_ATTEMPTS,
                         resetTime = now + WINDOW_MS\<rparr>
                  else \<lparr>allowed = count e < MAX_ATTEMPTS,
                         remainingAttempts = max 0 (MAX_ATTEMPTS - count e),
                         resetTime = firstAttempt e + WINDOW_MS\<rparr>)"
  proof (cases "store u")
    case None
    then show ?thesis by (simp add: check_fresh)
  next
    case (Some e)
    show ?thesis
    proof (cases "now - firstAttempt e > WINDOW_MS")
      case True
      with Some show ?thesis by (simp add: check_fresh)
    next
      case False
      with Some assms show ?thesis
        by (simp add: check_live_entry [of store u e now now_sweep rnd])
    qed
  qed
next
  show "dom (snd (checkPasswordChangeRateLimit rnd now_sweep now store u)) \<subseteq> dom store"
    using check_store_map_le [of rnd now_sweep now store u] by (rule map_le_implies_dom_le)
next
  assume h: "(\<forall>e. store u = Some e \<longrightarrow> firstAttempt e \<le> t) \<and> now - t > WINDOW_MS"
  let ?s = "recordPasswordChangeAttempt t store u"
  have "\<exists>e. ?s u = Some e \<and> now - firstAttempt e > WINDOW_MS"
  proof (cases "store u")
    case None
    then show ?thesis using h by (simp add: recordPasswordChangeAttempt_def)
  next
    case (Some e)
    then have "firstAttempt e \<le> t" using h by simp
    then show ?thesis using Some h by (simp add: recordPasswordChangeAttempt_def)
  qed
  then show "fst (checkPasswordChangeRateLimit rnd now_sweep now ?s u)
              = \<lparr>allowed = True, remainingAttempts = MAX_ATTEMPTS,
                  resetTime = now + WINDOW_MS\<rparr>"
    by (simp add: check_fresh)
qed

theorem check_answers_from_entry_witness:
  "fst (checkPasswordChangeRateLimit 0.05 1000000 1000000
          (recordPasswordChangeAttempt 0 Map.empty ''alice'') ''alice'')
     = \<lparr>allowed = True, remainingAttempts = 5, resetTime = 1900000\<rparr>
   \<and> fst (checkPasswordChangeRateLimit 0.05 600000 600000
          (recordPasswordChangeAttempt 0 Map.empty ''alice'') ''alice'')
     = \<lparr>allowed = True, remainingAttempts = 4, resetTime = 900000\<rparr>"
proof -
  have ord1: "(1000000::int) \<le> 1000000" and ord2: "(600000::int) \<le> 600000" by simp_all
  have a: "fst (checkPasswordChangeRateLimit 0.05 1000000 1000000
          (recordPasswordChangeAttempt 0 Map.empty ''alice'') ''alice'')
     = \<lparr>allowed = True, remainingAttempts = 5, resetTime = 1900000\<rparr>"
    using check_answers_from_entry [OF ord1, where rnd = "0.05"
        and store = "recordPasswordChangeAttempt 0 Map.empty ''alice''" and u = "''alice''"
        and t = 0]
      check_answers_from_entry [OF ord1, where rnd = "0.05"
        and store = Map.empty and u = "''alice''" and t = 0]
    by (simp add: WINDOW_MS_def MAX_ATTEMPTS_def)
  have b: "fst (checkPasswordChangeRateLimit 0.05 600000 600000
          (recordPasswordChangeAttempt 0 Map.empty ''alice'') ''alice'')
     = \<lparr>allowed = True, remainingAttempts = 4, resetTime = 900000\<rparr>"
    using check_answers_from_entry [OF ord2, where rnd = "0.05"
        and store = "recordPasswordChangeAttempt 0 Map.empty ''alice''" and u = "''alice''"
        and t = 0]
    by (simp add: WINDOW_MS_def MAX_ATTEMPTS_def recordPasswordChangeAttempt_def)
  from a b show ?thesis by simp
qed

text \<open>
  Claim C8. Whatever the store holds, resetting a user and checking the same user at once
  gives \<open>allowed = True\<close> with all five attempts remaining.
\<close>

theorem reset_then_check_allows:
  "fst (checkPasswordChangeRateLimit rnd now_sweep now
          (resetPasswordChangeRateLimit store u) u)
     = \<lparr>allowed = True, remainingAttempts = MAX_ATTEMPTS, resetTime = now + WINDOW_MS\<rparr>
   \<and> MAX_ATTEMPTS = 5"
  by (simp add: check_fresh resetPasswordChangeRateLimit_def MAX_ATTEMPTS_def)

text \<open>
  Claim C9. A user whose live entry has reached the limit is turned away without being
  recorded: the guarded call throws, reports \<open>firstAttempt + WINDOW_MS\<close> as the reset
  instant and leaves the entry as it was. The same holds along any run of guarded calls
  made while the window lasts, so blocked attempts never move the reset instant.
\<close>

theorem blocked_guard_records_nothing:
  assumes "store u = Some e"
    and "MAX_ATTEMPTS \<le> count e"
    and "\<forall>(rnd, ns, nc, nt, nr) \<in> set calls. ns \<le> nc \<and> nc - firstAttempt e \<le> WINDOW_MS"
  shows "snd (require_repeatedly calls store u) u = Some e
       \<and> length (fst (require_repeatedly calls store u)) = length calls
       \<and> (\<forall>r \<in> set (fst (require_repeatedly calls store u)).
             \<exists>p. r = Inl p \<and> payload_resetTime p = firstAttempt e + WINDOW_MS
                  \<and> response_status p = 429)"
  using assms
proof (induction calls arbitrary: store)
  case Nil
  then show ?case by simp
next
  case (Cons c calls)
  obtain rnd ns nc nt nr where c: "c = (rnd, ns, nc, nt, nr)"
    by (cases c) auto
  let ?s1 = "if rnd < 0.1 then cleanupExpiredEntries ns store else store"
  have ok: "ns \<le> nc" "nc - firstAttempt e \<le> WINDOW_MS"
    using Cons.prems(3) c by auto
  have blocked: "requirePasswordChangeRateLimit rnd ns nc nt nr store u
           = (Inl \<lparr>minutesUntilReset =
                      \<lceil>real_of_int (firstAttempt e + WINDOW_MS - nt) / 60000\<rceil>,
                    payload_resetTime = firstAttempt e + WINDOW_MS,
                    payload_remainingAttempts = 0,
                    response_status = 429\<rparr>, ?s1)"
    using require_blocked [of store u e nc ns rnd nt nr] Cons.prems(1,2) ok by simp
  have kept: "?s1 u = Some e"
    using Cons.prems(1) ok by (simp add: cleanup_lookup)
  have rest: "\<forall>(rnd, ns, nc, nt, nr) \<in> set calls. ns \<le> nc \<and> nc - firstAttempt e \<le> WINDOW_MS"
    using Cons.prems(3) by simp
  note IH = Cons.IH [of ?s1, OF kept Cons.prems(2) rest]
  show ?case
    using IH blocked c by (auto split: prod.splits)
qed

lemma two_blocked:
  assumes "length xs = 2"
    and "\<forall>r \<in> set xs. \<exists>p. r = Inl p \<and> payload_resetTime p = t \<and> response_status p = 429"
  shows "map (map_sum payload_resetTime (\<lambda>u. u)) xs = [Inl t, Inl t]"
proof -
  obtain a b where xs: "xs = [a, b]"
    using assms(1) by (cases xs; cases "tl xs") auto
  then show ?thesis using assms(2) by auto
qed

theorem blocked_guard_records_nothing_witness:
  "snd (require_repeatedly [(0.05, 10, 10, 10, 10), (0.5, 20, 20, 20, 20)]
          [''alice'' \<mapsto> \<lparr>count = 5, firstAttempt = 0\<rparr>] ''alice'') ''alice''
     = Some \<lparr>count = 5, firstAttempt = 0\<rparr>
   \<and> map (map_sum payload_resetTime (\<lambda>u. u))
        (fst (require_repeatedly [(0.05, 10, 10, 10, 10), (0.5, 20, 20, 20, 20)]
          [''alice'' \<mapsto> \<lparr>count = 5, firstAttempt = 0\<rparr>] ''alice''))
     = [Inl 900000, Inl 900000]"
proof -
  let ?calls = "[(0.05, 10, 10, 10, 10), (0.5, 20, 20, 20, 20)]
                  :: (real \<times> int \<times> int \<times> int \<times> int) list"
  let ?store = "[''alice'' \<mapsto> \<lparr>count = 5, firstAttempt = 0\<rparr>]"
  have h1: "?store ''alice'' = Some \<lparr>count = 5, firstAttempt = 0\<rparr>" by simp
  have h2: "MAX_ATTEMPTS \<le> count \<lparr>count = 5, firstAttempt = 0\<rparr>"
    by (simp add: MAX_ATTEMPTS_def)
  have h3: "\<forall>(rnd, ns, nc, nt, nr) \<in> set ?calls.
              ns \<le> nc \<and> nc - firstAttempt \<lparr>count = 5, firstAttempt = 0\<rparr> \<le> WINDOW_MS"
    by (simp add: WINDOW_MS_def)
  note T = blocked_guard_records_nothing [where store = ?store and u = "''alice''"
      and e = "\<lparr>count = 5, firstAttempt = 0\<rparr>" and calls = ?calls]
  have c: "snd (require_repeatedly ?calls ?store ''alice'') ''alice''
             = Some \<lparr>count = 5, firstAttempt = 0\<rparr>"
    and l: "length (fst (require_repeatedly ?calls ?store ''alice'')) = 2"
    and a: "\<forall>r \<in> set (fst (require_repeatedly ?calls ?store ''alice'')).
             \<exists>p. r = Inl p \<and> payload_resetTime p = 900000 \<and> response_status p = 429"
    using T h1 h2 h3 by (simp_all add: WINDOW_MS_def)
  show ?thesis
    using c two_blocked [OF l a] by simp
qed

section \<open>Properties of the background job\<close>

lemma exec_pending_error_video:
  assumes "workVideos db videoId = Some v"
  shows "workVideos (exec (Video_error videoId m) (exec (Workflow_pending workflowId)
            (exec (Video_processing videoId) db))) videoId
          = Some (v\<lparr>video_status := ''error'', progress := 10, error_message := Some m\<rparr>)"
  using assms
  by (simp add: update_video_def update_workflow_def split: option.splits)

lemma exec_pending_error_workflow:
  assumes "workWorkflows db workflowId = Some w"
  shows "workWorkflows (exec (Video_error videoId m) (exec (Workflow_pending workflowId)
            (exec (Video_processing videoId) db))) workflowId
          = Some (w\<lparr>workflow_status := ''pending''\<rparr>)"
  using assms
  by (simp add: update_video_def update_workflow_def split: option.splits)

lemma exec_pending_error_steps:
  "workAnalysisSteps (exec (Video_error videoId m) (exec (Workflow_pending workflowId)
            (exec (Video_processing videoId) db))) = workAnalysisSteps db"
  by (simp add: update_video_def update_workflow_def split: option.splits)

lemma exec_success_video:
  assumes "workVideos db videoId = Some v"
  shows "workVideos (exec (Video_completed videoId t2) (exec (Workflow_analyzed workflowId t1)
            (exec (Steps_insert rows) (exec (Video_processing videoId) db)))) videoId
          = Some (v\<lparr>video_status := ''completed'', progress := 100,
                     video_completed_at := Some t2\<rparr>)"
  using assms
  by (simp add: update_video_def update_workflow_def split: option.splits)

lemma exec_success_workflow:
  assumes "workWorkflows db workflowId = Some w"
  shows "workWorkflows (exec (Video_completed videoId t2) (exec (Workflow_analyzed workflowId t1)
            (exec (Steps_insert rows) (exec (Video_processing videoId) db)))) workflowId
          = Some (w\<lparr>workflow_status := ''analyzed'', workflow_completed_at := Some t1\<rparr>)"
  using assms
  by (simp add: update_video_def update_workflow_def split: option.splits)

lemma exec_success_steps:
  "workAnalysisSteps (exec (Video_completed videoId t2) (exec (Workflow_analyzed workflowId t1)
            (exec (Steps_insert rows) (exec (Video_processing videoId) db))))
          = workAnalysisSteps db @ rows"
  by (simp add: update_video_def update_workflow_def split: option.splits)

lemma processing_video:
  assumes "workVideos db videoId = Some v"
  shows "workVideos (exec (Video_processing videoId) db) videoId
           = Some (v\<lparr>video_status := ''processing'', progress := 10\<rparr>)"
  using assms by (simp add: update_video_def)

lemma step_rows_length: "length (step_rows workflowId results) = length results"
  by (simp add: step_rows_def)

lemma step_rows_empty: "step_rows workflowId results = [] \<longleftrightarrow> results = []"
  using step_rows_length [of workflowId results] by (metis length_0_conv)

lemma step_rows_nth:
  "k < length results \<Longrightarrow>
     step_rows workflowId results ! k = step_row workflowId (results ! k) k"
  by (simp add: step_rows_def)

lemma job_on_failure:
  assumes "workVideos db videoId = Some v"
    and "performAIAnalysis e models (storage_path v) workflowId = Inl err"
  shows "analyzeVideoInBackground e models db videoId workflowId
           = (let m = (case err of Error m st \<Rightarrow> m | NonError st \<Rightarrow> Text ''Unknown error'') in
              ([Video_processing videoId, Workflow_pending workflowId, Video_error videoId m],
               exec (Video_error videoId m) (exec (Workflow_pending workflowId)
                 (exec (Video_processing videoId) db))))"
  using assms
  by (simp add: analyzeVideoInBackground_def Let_def processing_video del: exec.simps)

lemma job_on_empty:
  assumes "workVideos db videoId = Some v"
    and "performAIAnalysis e models (storage_path v) workflowId = Inr []"
  shows "analyzeVideoInBackground e models db videoId workflowId
           = ([Video_processing videoId, Workflow_pending workflowId,
               Video_error videoId (Text ''values() must be called with at least one value'')],
              exec (Video_error videoId
                      (Text ''values() must be called with at least one value''))
                (exec (Workflow_pending workflowId) (exec (Video_processing videoId) db)))"
  using assms
  by (simp add: analyzeVideoInBackground_def Let_def processing_video step_rows_def
      empty_values_def del: exec.simps)

lemma job_on_success:
  assumes "workVideos db videoId = Some v"
    and "performAIAnalysis e models (storage_path v) workflowId = Inr results"
    and "results \<noteq> []"
  shows "analyzeVideoInBackground e models db videoId workflowId
           = ([Video_processing videoId, Steps_insert (step_rows workflowId results),
               Workflow_analyzed workflowId (date_workflow e),
               Video_completed videoId (date_video e)],
              exec (Video_completed videoId (date_video e))
                (exec (Workflow_analyzed workflowId (date_workflow e))
                  (exec (Steps_insert (step_rows workflowId results))
                    (exec (Video_processing videoId) db))))"
  using assms
  by (simp add: analyzeVideoInBackground_def Let_def processing_video step_rows_empty
      del: exec.simps)

lemma perform_failure_is_Error:
  assumes "performAIAnalysis e models sp workflowId = Inl err"
  shows "\<exists>m. err = Error m None"
  using assms
  by (auto simp: performAIAnalysis_def split: option.splits if_splits sum.splits)

lemma stages_fail_before_upload:
  assumes "fails_before_upload e models (Some p)"
  shows "\<exists>err. analysis_stages e models p workflowId = Inl err"
  using assms
  by (auto simp: fails_before_upload_def analysis_stages_def isl_def
      split: sum.splits if_splits)

lemma perform_fails_before_upload:
  assumes "fails_before_upload e models sp"
  shows "\<exists>m. performAIAnalysis e models sp workflowId = Inl (Error m None)"
proof (cases sp)
  case None
  then show ?thesis by (simp add: performAIAnalysis_def)
next
  case (Some p)
  show ?thesis
  proof (cases "p = []")
    case True
    then show ?thesis using Some by (simp add: performAIAnalysis_def)
  next
    case False
    obtain err where "analysis_stages e models p workflowId = Inl err"
      using stages_fail_before_upload [of e models p workflowId] assms Some by blast
    then show ?thesis
      using False Some by (cases err) (simp_all add: performAIAnalysis_def)
  qed
qed

lemma perform_no_frames:
  assumes "p \<noteq> []" and "downloadVideoFromSupabase e p = Inr filePath"
    and "extractFrames e filePath = Inr []"
  shows "performAIAnalysis e models (Some p) workflowId
           = Inl (Error (AI_failed MSG_no_frames) None)"
  using assms by (simp add: performAIAnalysis_def analysis_stages_def)

lemma job_failure_facts:
  assumes "workVideos db videoId = Some v"
    and "performAIAnalysis e models (storage_path v) workflowId = Inl (Error m None)"
  shows "workAnalysisSteps (snd (analyzeVideoInBackground e models db videoId workflowId))
           = workAnalysisSteps db"
    and "fst (analyzeVideoInBackground e models db videoId workflowId)
           = [Video_processing videoId, Workflow_pending workflowId, Video_error videoId m]"
    and "workVideos (snd (analyzeVideoInBackground e models db videoId workflowId)) videoId
           = Some (v\<lparr>video_status := ''error'', progress := 10, error_message := Some m\<rparr>)"
  using job_on_failure [OF assms] assms(1)
  by (simp_all add: Let_def exec_pending_error_steps exec_pending_error_video
      del: exec.simps)

lemma job_empty_facts:
  assumes "workVideos db videoId = Some v"
    and "performAIAnalysis e models (storage_path v) workflowId = Inr []"
  shows "workAnalysisSteps (snd (analyzeVideoInBackground e models db videoId workflowId))
           = workAnalysisSteps db"
    and "fst (analyzeVideoInBackground e models db videoId workflowId)
           = [Video_processing videoId, Workflow_pending workflowId,
              Video_error videoId (Text ''values() must be called with at least one value'')]"
    and "workVideos (snd (analyzeVideoInBackground e models db videoId workflowId)) videoId
           = Some (v\<lparr>video_status := ''error'', progress := 10,
                     error_message :=
                       Some (Text ''values() must be called with at least one value'')\<rparr>)"
  using job_on_empty [OF assms] assms(1)
  by (simp_all add: exec_pending_error_steps exec_pending_error_video del: exec.simps)

text \<open>
  Claim C7. For an existing video: when the download succeeds and the extractor returns
  no frame, the analysis throws the extraction error, the video ends in status \<open>error\<close> and
  the table of steps is as before. More generally, when the job fails before the upload
  stage (the storage path is missing or empty, or the download, the extraction or the model
  call fails), no insert is sent, the table of steps is as before and the video ends in
  status \<open>error\<close>.
\<close>

theorem failed_analysis_persists_no_step:
  assumes "workVideos db videoId = Some v"
  shows "(storage_path v = Some p \<and> p \<noteq> [] \<and> downloadVideoFromSupabase e p = Inr filePath
            \<and> extractFrames e filePath = Inr [] \<longrightarrow>
            performAIAnalysis e models (Some p) workflowId
              = Inl (Error (AI_failed MSG_no_frames) None)
          \<and> workVideos (snd (analyzeVideoInBackground e models db videoId workflowId)) videoId
              = Some (v\<lparr>video_status := ''error'', progress := 10,
                        error_message := Some (AI_failed MSG_no_frames)\<rparr>)
          \<and> workAnalysisSteps (snd (analyzeVideoInBackground e models db videoId workflowId))
              = workAnalysisSteps db)
       \<and> (fails_before_upload e models (storage_path v) \<longrightarrow>
            workAnalysisSteps (snd (analyzeVideoInBackground e models db videoId workflowId))
              = workAnalysisSteps db
          \<and> (\<forall>rows. Steps_insert rows
                 \<notin> set (fst (analyzeVideoInBackground e models db videoId workflowId)))
          \<and> map_option video_status
               (workVideos (snd (analyzeVideoInBackground e models db videoId workflowId)) videoId)
              = Some ''error'')"
proof (intro conjI impI)
  assume h: "storage_path v = Some p \<and> p \<noteq> [] \<and> downloadVideoFromSupabase e p = Inr filePath
            \<and> extractFrames e filePath = Inr []"
  then have pf: "performAIAnalysis e models (storage_path v) workflowId
           = Inl (Error (AI_failed MSG_no_frames) None)"
    using perform_no_frames [of p e filePath models workflowId] by simp
  then show "performAIAnalysis e models (Some p) workflowId
              = Inl (Error (AI_failed MSG_no_frames) None)"
    using h by simp
  show "workVideos (snd (analyzeVideoInBackground e models db videoId workflowId)) videoId
              = Some (v\<lparr>video_status := ''error'', progress := 10,
                        error_message := Some (AI_failed MSG_no_frames)\<rparr>)"
    by (rule job_failure_facts(3) [OF assms pf])
  show "workAnalysisSteps (snd (analyzeVideoInBackground e models db videoId workflowId))
              = workAnalysisSteps db"
    by (rule job_failure_facts(1) [OF assms pf])
next
  assume h: "fails_before_upload e models (storage_path v)"
  then obtain m where pf: "performAIAnalysis e models (storage_path v) workflowId
           = Inl (Error m None)"
    using perform_fails_before_upload [of e models "storage_path v" workflowId] by auto
  show "workAnalysisSteps (snd (analyzeVideoInBackground e models db videoId workflowId))
              = workAnalysisSteps db"
    by (rule job_failure_facts(1) [OF assms pf])
  show "\<forall>rows. Steps_insert rows
                 \<notin> set (fst (analyzeVideoInBackground e models db videoId workflowId))"
    by (simp add: job_failure_facts(2) [OF assms pf])
  show "map_option video_status
               (workVideos (snd (analyzeVideoInBackground e models db videoId workflowId)) videoId)
              = Some ''error''"
    by (simp add: job_failure_facts(3) [OF assms pf])
qed

theorem failed_analysis_persists_no_step_witness:
  "performAIAnalysis (calm_env\<lparr>extractFrames := (\<lambda>p. Inr [])\<rparr>) (models_flash None)
       (Some ''u/v.mp4'') 2
     = Inl (Error (AI_failed MSG_no_frames) None)
   \<and> fails_before_upload (calm_env\<lparr>extractFrames := (\<lambda>p. Inr [])\<rparr>) (models_flash None)
       (Some ''u/v.mp4'')
   \<and> workAnalysisSteps (snd (analyzeVideoInBackground
         (calm_env\<lparr>extractFrames := (\<lambda>p. Inr [])\<rparr>) (models_flash None) db0 1 2)) = []
   \<and> map_option video_status (workVideos (snd (analyzeVideoInBackground
         (calm_env\<lparr>extractFrames := (\<lambda>p. Inr [])\<rparr>) (models_flash None) db0 1 2)) 1)
       = Some ''error''
   \<and> workAnalysisSteps (snd (analyzeVideoInBackground calm_env (models_flash None)
         db_no_path 1 2)) = []
   \<and> map_option video_status (workVideos (snd (analyzeVideoInBackground calm_env
         (models_flash None) db_no_path 1 2)) 1) = Some ''error''
   \<and> workAnalysisSteps (snd (analyzeVideoInBackground calm_env (models_flash None)
         db_empty_path 1 2)) = []
   \<and> map_option video_status (workVideos (snd (analyzeVideoInBackground calm_env
         (models_flash None) db_empty_path 1 2)) 1) = Some ''error''"
proof -
  let ?e = "calm_env\<lparr>extractFrames := (\<lambda>p. Inr [])\<rparr>"
  let ?v = "\<lparr>video_status = ''uploaded'', progress = 0, storage_path = Some ''u/v.mp4'',
             error_message = None, video_completed_at = None\<rparr>"
  let ?vn = "\<lparr>video_status = ''uploaded'', progress = 0, storage_path = None,
             error_message = None, video_completed_at = None\<rparr>"
  let ?ve = "\<lparr>video_status = ''uploaded'', progress = 0, storage_path = Some [],
             error_message = None, video_completed_at = None\<rparr>"
  have a: "workVideos db0 1 = Some ?v" by (simp add: db0_def)
  have an: "workVideos db_no_path 1 = Some ?vn" by (simp add: db_no_path_def db0_def)
  have ae: "workVideos db_empty_path 1 = Some ?ve" by (simp add: db_empty_path_def db0_def)
  have d: "downloadVideoFromSupabase ?e ''u/v.mp4'' = Inr ''/tmp/video-1/in.mp4''"
    by (simp add: downloadVideoFromSupabase_def calm_env_def)
  have x: "extractFrames ?e ''/tmp/video-1/in.mp4'' = Inr []" by simp
  have f: "fails_before_upload ?e (models_flash None) (Some ''u/v.mp4'')"
    by (simp add: fails_before_upload_def d)
  have fn: "fails_before_upload calm_env (models_flash None) None"
    by (simp add: fails_before_upload_def)
  have fe: "fails_before_upload calm_env (models_flash None) (Some [])"
    by (simp add: fails_before_upload_def downloadVideoFromSupabase_def)
  have s: "workAnalysisSteps db0 = []" "workAnalysisSteps db_no_path = []"
    "workAnalysisSteps db_empty_path = []"
    by (simp_all add: db0_def db_no_path_def db_empty_path_def)
  have one: "performAIAnalysis ?e (models_flash None) (Some ''u/v.mp4'') 2
     = Inl (Error (AI_failed MSG_no_frames) None)
   \<and> workAnalysisSteps (snd (analyzeVideoInBackground ?e (models_flash None) db0 1 2)) = []
   \<and> map_option video_status (workVideos (snd (analyzeVideoInBackground ?e
         (models_flash None) db0 1 2)) 1) = Some ''error''"
    using failed_analysis_persists_no_step [OF a, of "''u/v.mp4''" ?e "''/tmp/video-1/in.mp4''"
        "models_flash None" 2] d x f s
    by simp
  have two: "workAnalysisSteps (snd (analyzeVideoInBackground calm_env (models_flash None)
         db_no_path 1 2)) = []
   \<and> map_option video_status (workVideos (snd (analyzeVideoInBackground calm_env
         (models_flash None) db_no_path 1 2)) 1) = Some ''error''"
    using failed_analysis_persists_no_step [OF an, where e = calm_env
        and models = "models_flash None" and workflowId = 2, THEN conjunct2] fn s
    by simp
  have three: "workAnalysisSteps (snd (analyzeVideoInBackground calm_env (models_flash None)
         db_empty_path 1 2)) = []
   \<and> map_option video_status (workVideos (snd (analyzeVideoInBackground calm_env
         (models_flash None) db_empty_path 1 2)) 1) = Some ''error''"
    using failed_analysis_persists_no_step [OF ae, where e = calm_env
        and models = "models_flash None" and workflowId = 2, THEN conjunct2] fe s
    by simp
  from one f two three show ?thesis by simp
qed

lemma job_success_facts:
  assumes "workVideos db videoId = Some v"
    and "performAIAnalysis e models (storage_path v) workflowId = Inr results"
    and "results \<noteq> []"
  shows "workAnalysisSteps (snd (analyzeVideoInBackground e models db videoId workflowId))
           = workAnalysisSteps db @ step_rows workflowId results"
    and "fst (analyzeVideoInBackground e models db videoId workflowId)
           = [Video_processing videoId, Steps_insert (step_rows workflowId results),
              Workflow_analyzed workflowId (date_workflow e),
              Video_completed videoId (date_video e)]"
    and "workVideos (snd (analyzeVideoInBackground e models db videoId workflowId)) videoId
           = Some (v\<lparr>video_status := ''completed'', progress := 100,
                     video_completed_at := Some (date_video e)\<rparr>)"
  using job_on_success [OF assms] assms(1)
  by (simp_all add: exec_success_steps exec_success_video del: exec.simps)

lemma job_success_workflow:
  assumes "workVideos db videoId = Some v" and "workWorkflows db workflowId = Some w"
    and "performAIAnalysis e models (storage_path v) workflowId = Inr results"
    and "results \<noteq> []"
  shows "workWorkflows (snd (analyzeVideoInBackground e models db videoId workflowId)) workflowId
           = Some (w\<lparr>workflow_status := ''analyzed'',
                     workflow_completed_at := Some (date_workflow e)\<rparr>)"
  using job_on_success [OF assms(1,3,4)] assms(2)
  by (simp add: exec_success_workflow del: exec.simps)

lemma job_failure_workflow:
  assumes "workVideos db videoId = Some v" and "workWorkflows db workflowId = Some w"
    and "performAIAnalysis e models (storage_path v) workflowId = Inl err"
  shows "workWorkflows (snd (analyzeVideoInBackground e models db videoId workflowId)) workflowId
           = Some (w\<lparr>workflow_status := ''pending''\<rparr>)"
  using job_on_failure [OF assms(1,3)] assms(2)
  by (simp add: Let_def exec_pending_error_workflow del: exec.simps)

lemma job_empty_workflow:
  assumes "workVideos db videoId = Some v" and "workWorkflows db workflowId = Some w"
    and "performAIAnalysis e models (storage_path v) workflowId = Inr []"
  shows "workWorkflows (snd (analyzeVideoInBackground e models db videoId workflowId)) workflowId
           = Some (w\<lparr>workflow_status := ''pending''\<rparr>)"
  using job_on_empty [OF assms(1,3)] assms(2)
  by (simp add: exec_pending_error_workflow del: exec.simps)

lemma job_replays_statements:
  "snd (analyzeVideoInBackground e models db videoId workflowId)
     = foldl (\<lambda>d s. exec s d) db (fst (analyzeVideoInBackground e models db videoId workflowId))"
  by (simp add: analyzeVideoInBackground_def Let_def del: exec.simps
      split: sum.splits option.splits)

text \<open>
  Claim C6. For an existing video and workflow, the job first sends the update that puts the
  video in status \<open>processing\<close> with progress 10. When the analysis returns at least one
  result, the job sends the insert of all step rows (one row for each result, in order,
  numbered from 1, with the fields of its result), then the update of the workflow to
  \<open>analyzed\<close> and of the video to \<open>completed\<close> with progress 100 and the completion dates.
  When the job fails, because the analysis throws or because it returns no result and the
  insert of no rows throws, it sets the workflow to \<open>pending\<close> and the video to \<open>error\<close>
  with the message, and the steps are as before. The database after the job is the result
  of these statements, and the pair of statuses at the end is one of the two named.
\<close>

theorem job_status_transitions:
  assumes "workVideos db videoId = Some v" and "workWorkflows db workflowId = Some w"
  shows "hd (fst (analyzeVideoInBackground e models db videoId workflowId))
           = Video_processing videoId
       \<and> workVideos (exec (Video_processing videoId) db) videoId
           = Some (v\<lparr>video_status := ''processing'', progress := 10\<rparr>)
       \<and> snd (analyzeVideoInBackground e models db videoId workflowId)
           = foldl (\<lambda>d s. exec s d) db
               (fst (analyzeVideoInBackground e models db videoId workflowId))
       \<and> (case (case performAIAnalysis e models (storage_path v) workflowId of
                   Inl err \<Rightarrow> Inl err
                 | Inr results \<Rightarrow> if results = [] then Inl empty_values else Inr results) of
            Inr results \<Rightarrow>
              fst (analyzeVideoInBackground e models db videoId workflowId)
                = [Video_processing videoId, Steps_insert (step_rows workflowId results),
                   Workflow_analyzed workflowId (date_workflow e),
                   Video_completed videoId (date_video e)]
            \<and> workAnalysisSteps (snd (analyzeVideoInBackground e models db videoId workflowId))
                = workAnalysisSteps db @ step_rows workflowId results
            \<and> length (step_rows workflowId results) = length results
            \<and> (\<forall>k<length results.
                  step_rows workflowId results ! k
                    = \<lparr>workflow_id = workflowId,
                       sequence_no = k + 1,
                       step_type = r_type (results ! k),
                       step_action = r_action (results ! k),
                       step_description = r_description (results ! k),
                       timestamp_label =
                         (case r_timestamp_seconds (results ! k) of
                            None \<Rightarrow> None
                          | Some t \<Rightarrow> if t = 0 then None else Some (formatTimestamp t)),
                       timestamp_seconds = r_timestamp_seconds (results ! k),
                       confidence = r_confidence (results ! k),
                       screenshot_url = r_screenshot_url (results ! k)\<rparr>)
            \<and> workVideos (snd (analyzeVideoInBackground e models db videoId workflowId)) videoId
                = Some (v\<lparr>video_status := ''completed'', progress := 100,
                          video_completed_at := Some (date_video e)\<rparr>)
            \<and> workWorkflows (snd (analyzeVideoInBackground e models db videoId workflowId))
                  workflowId
                = Some (w\<lparr>workflow_status := ''analyzed'',
                          workflow_completed_at := Some (date_workflow e)\<rparr>)
          | Inl err \<Rightarrow>
              fst (analyzeVideoInBackground e models db videoId workflowId)
                = [Video_processing videoId, Workflow_pending workflowId,
                   Video_error videoId (stored_message err)]
            \<and> workAnalysisSteps (snd (analyzeVideoInBackground e models db videoId workflowId))
                = workAnalysisSteps db
            \<and> workVideos (snd (analyzeVideoInBackground e models db videoId workflowId)) videoId
                = Some (v\<lparr>video_status := ''error'', progress := 10,
                          error_message := Some (stored_message err)\<rparr>)
            \<and> workWorkflows (snd (analyzeVideoInBackground e models db videoId workflowId))
                  workflowId
                = Some (w\<lparr>workflow_status := ''pending''\<rparr>))
       \<and> (map_option video_status
             (workVideos (snd (analyzeVideoInBackground e models db videoId workflowId)) videoId),
           map_option workflow_status
             (workWorkflows (snd (analyzeVideoInBackground e models db videoId workflowId))
                workflowId))
           \<in> {(Some ''completed'', Some ''analyzed''), (Some ''error'', Some ''pending'')}"
proof -
  have replay: "snd (analyzeVideoInBackground e models db videoId workflowId)
           = foldl (\<lambda>d s. exec s d) db
               (fst (analyzeVideoInBackground e models db videoId workflowId))"
    by (rule job_replays_statements)
  show ?thesis
  proof (cases "performAIAnalysis e models (storage_path v) workflowId")
    case (Inl err)
    then obtain m where err: "err = Error m None"
      using perform_failure_is_Error by blast
    have pf: "performAIAnalysis e models (storage_path v) workflowId = Inl (Error m None)"
      using Inl err by simp
    have sm: "stored_message err = m" by (simp add: err stored_message_def)
    note f = job_failure_facts [OF assms(1) pf] job_failure_workflow [OF assms pf]
    show ?thesis
      apply (intro conjI)
          apply (simp add: f)
         apply (rule processing_video [OF assms(1)])
        apply (rule replay)
       apply (simp add: Inl sm f)
      apply (simp add: f)
      done
  next
    case (Inr results)
    show ?thesis
    proof (cases "results = []")
      case True
      have pf: "performAIAnalysis e models (storage_path v) workflowId = Inr []"
        using Inr True by simp
      have sm: "stored_message empty_values
                  = Text ''values() must be called with at least one value''"
        by (simp add: stored_message_def empty_values_def)
      note f = job_empty_facts [OF assms(1) pf] job_empty_workflow [OF assms pf]
      show ?thesis
        apply (intro conjI)
            apply (simp add: f)
           apply (rule processing_video [OF assms(1)])
          apply (rule replay)
         apply (simp add: Inr True sm f)
        apply (simp add: f)
        done
    next
      case False
      note f = job_success_facts [OF assms(1) Inr False]
        job_success_workflow [OF assms Inr False]
      have rows: "\<forall>k<length results.
                  step_rows workflowId results ! k
                    = \<lparr>workflow_id = workflowId,
                       sequence_no = k + 1,
                       step_type = r_type (results ! k),
                       step_action = r_action (results ! k),
                       step_description = r_description (results ! k),
                       timestamp_label =
                         (case r_timestamp_seconds (results ! k) of
                            None \<Rightarrow> None
                          | Some t \<Rightarrow> if t = 0 then None else Some (formatTimestamp t)),
                       timestamp_seconds = r_timestamp_seconds (results ! k),
                       confidence = r_confidence (results ! k),
                       screenshot_url = r_screenshot_url (results ! k)\<rparr>"
        by (simp add: step_rows_nth step_row_def)
      show ?thesis
        apply (intro conjI)
            apply (simp add: f)
           apply (rule processing_video [OF assms(1)])
          apply (rule replay)
         apply (simp add: Inr False f step_rows_length rows)
        apply (simp add: f)
        done
    qed
  qed
qed

theorem job_status_transitions_witness:
  "fst (analyzeVideoInBackground three_steps_env (models_flash None) db0 1 2)
     = [Video_processing 1,
        Steps_insert
          [\<lparr>workflow_id = 2, sequence_no = 1, step_type = None,
             step_action = Some (JString ''a''), step_description = None,
             timestamp_label = None, timestamp_seconds = None, confidence = None,
             screenshot_url = Some (publicUrl three_steps_env 2 0)\<rparr>,
           \<lparr>workflow_id = 2, sequence_no = 2, step_type = None,
             step_action = Some (JString ''b''), step_description = None,
             timestamp_label = None, timestamp_seconds = None, confidence = None,
             screenshot_url = Some (publicUrl three_steps_env 2 1)\<rparr>,
           \<lparr>workflow_id = 2, sequence_no = 3, step_type = None,
             step_action = Some (JString ''c''), step_description = None,
             timestamp_label = None, timestamp_seconds = None, confidence = None,
             screenshot_url = Some (publicUrl three_steps_env 2 2)\<rparr>],
        Workflow_analyzed 2 1000, Video_completed 1 1001]
   \<and> length (workAnalysisSteps
         (snd (analyzeVideoInBackground three_steps_env (models_flash None) db0 1 2))) = 3
   \<and> map_option video_status
         (workVideos (snd (analyzeVideoInBackground three_steps_env (models_flash None)
            db0 1 2)) 1)
       = Some ''completed''
   \<and> map_option workflow_status
         (workWorkflows (snd (analyzeVideoInBackground three_steps_env (models_flash None)
            db0 1 2)) 2)
       = Some ''analyzed''
   \<and> fst (analyzeVideoInBackground (calm_env\<lparr>GEMINI_API_KEY := None\<rparr>) (models_flash None)
           db0 1 2)
     = [Video_processing 1, Workflow_pending 2,
        Video_error 1 (AI_failed (Text ''GEMINI_API_KEY is not set''))]
   \<and> map_option video_status
         (workVideos (snd (analyzeVideoInBackground (calm_env\<lparr>GEMINI_API_KEY := None\<rparr>)
            (models_flash None) db0 1 2)) 1)
       = Some ''error''
   \<and> map_option workflow_status
         (workWorkflows (snd (analyzeVideoInBackground (calm_env\<lparr>GEMINI_API_KEY := None\<rparr>)
            (models_flash None) db0 1 2)) 2)
       = Some ''pending''
   \<and> performAIAnalysis no_steps_env (models_flash None) (Some ''u/v.mp4'') 2 = Inr []
   \<and> fst (analyzeVideoInBackground no_steps_env (models_flash None) db0 1 2)
     = [Video_processing 1, Workflow_pending 2,
        Video_error 1 (Text ''values() must be called with at least one value'')]
   \<and> workAnalysisSteps (snd (analyzeVideoInBackground no_steps_env (models_flash None)
         db0 1 2)) = []
   \<and> map_option video_status
         (workVideos (snd (analyzeVideoInBackground no_steps_env (models_flash None)
            db0 1 2)) 1)
       = Some ''error''
   \<and> map_option workflow_status
         (workWorkflows (snd (analyzeVideoInBackground no_steps_env (models_flash None)
            db0 1 2)) 2)
       = Some ''pending''"
proof -
  let ?v = "\<lparr>video_status = ''uploaded'', progress = 0, storage_path = Some ''u/v.mp4'',
             error_message = None, video_completed_at = None\<rparr>"
  let ?w = "\<lparr>workflow_status = ''pending'', workflow_completed_at = None\<rparr>"
  let ?r = "\<lparr>r_type = None, r_action = None, r_description = None, r_confidence = None,
             r_timestamp_seconds = None, r_screenshot_url = None\<rparr>"
  let ?results = "[?r\<lparr>r_action := Some (JString ''a''),
                      r_screenshot_url := Some (publicUrl three_steps_env 2 0)\<rparr>,
                   ?r\<lparr>r_action := Some (JString ''b''),
                      r_screenshot_url := Some (publicUrl three_steps_env 2 1)\<rparr>,
                   ?r\<lparr>r_action := Some (JString ''c''),
                      r_screenshot_url := Some (publicUrl three_steps_env 2 2)\<rparr>]"
  have a: "workVideos db0 1 = Some ?v" by (simp add: db0_def)
  have b: "workWorkflows db0 2 = Some ?w" by (simp add: db0_def)
  have s0: "workAnalysisSteps db0 = []" by (simp add: db0_def)
  have ok: "performAIAnalysis three_steps_env (models_flash None) (Some ''u/v.mp4'') 2
     = Inr ?results"
    by code_simp
  have ko: "performAIAnalysis (calm_env\<lparr>GEMINI_API_KEY := None\<rparr>) (models_flash None)
              (Some ''u/v.mp4'') 2
     = Inl (Error (AI_failed (Text ''GEMINI_API_KEY is not set'')) None)"
    by code_simp
  have none: "performAIAnalysis no_steps_env (models_flash None) (Some ''u/v.mp4'') 2 = Inr []"
    by code_simp
  have dates: "date_workflow three_steps_env = 1000" "date_video three_steps_env = 1001"
    by (simp_all add: three_steps_env_def calm_env_def)
  have rows: "step_rows 2 ?results
     = [\<lparr>workflow_id = 2, sequence_no = 1, step_type = None,
             step_action = Some (JString ''a''), step_description = None,
             timestamp_label = None, timestamp_seconds = None, confidence = None,
             screenshot_url = Some (publicUrl three_steps_env 2 0)\<rparr>,
           \<lparr>workflow_id = 2, sequence_no = 2, step_type = None,
             step_action = Some (JString ''b''), step_description = None,
             timestamp_label = None, timestamp_seconds = None, confidence = None,
             screenshot_url = Some (publicUrl three_steps_env 2 1)\<rparr>,
           \<lparr>workflow_id = 2, sequence_no = 3, step_type = None,
             step_action = Some (JString ''c''), step_description = None,
             timestamp_label = None, timestamp_seconds = None, confidence = None,
             screenshot_url = Some (publicUrl three_steps_env 2 2)\<rparr>]"
    by (simp add: step_rows_def step_row_def upt_rec)
  have s1: "fst (analyzeVideoInBackground three_steps_env (models_flash None) db0 1 2)
     = [Video_processing 1, Steps_insert (step_rows 2 ?results),
        Workflow_analyzed 2 1000, Video_completed 1 1001]
   \<and> length (workAnalysisSteps
         (snd (analyzeVideoInBackground three_steps_env (models_flash None) db0 1 2))) = 3
   \<and> map_option video_status
         (workVideos (snd (analyzeVideoInBackground three_steps_env (models_flash None)
            db0 1 2)) 1)
       = Some ''completed''
   \<and> map_option workflow_status
         (workWorkflows (snd (analyzeVideoInBackground three_steps_env (models_flash None)
            db0 1 2)) 2)
       = Some ''analyzed''"
    using job_status_transitions [OF a b, of three_steps_env "models_flash None",
        THEN conjunct2, THEN conjunct2, THEN conjunct2, THEN conjunct1] ok dates s0
    by (simp add: step_rows_length)
  have s2: "fst (analyzeVideoInBackground (calm_env\<lparr>GEMINI_API_KEY := None\<rparr>) (models_flash None)
           db0 1 2)
     = [Video_processing 1, Workflow_pending 2,
        Video_error 1 (AI_failed (Text ''GEMINI_API_KEY is not set''))]
   \<and> map_option video_status
         (workVideos (snd (analyzeVideoInBackground (calm_env\<lparr>GEMINI_API_KEY := None\<rparr>)
            (models_flash None) db0 1 2)) 1)
       = Some ''error''
   \<and> map_option workflow_status
         (workWorkflows (snd (analyzeVideoInBackground (calm_env\<lparr>GEMINI_API_KEY := None\<rparr>)
            (models_flash None) db0 1 2)) 2)
       = Some ''pending''"
    using job_status_transitions [OF a b, of "calm_env\<lparr>GEMINI_API_KEY := None\<rparr>"
        "models_flash None", THEN conjunct2, THEN conjunct2, THEN conjunct2, THEN conjunct1] ko
    by (simp add: stored_message_def)
  have s3: "fst (analyzeVideoInBackground no_steps_env (models_flash None) db0 1 2)
     = [Video_processing 1, Workflow_pending 2,
        Video_error 1 (Text ''values() must be called with at least one value'')]
   \<and> workAnalysisSteps (snd (analyzeVideoInBackground no_steps_env (models_flash None)
         db0 1 2)) = []
   \<and> map_option video_status
         (workVideos (snd (analyzeVideoInBackground no_steps_env (models_flash None)
            db0 1 2)) 1)
       = Some ''error''
   \<and> map_option workflow_status
         (workWorkflows (snd (analyzeVideoInBackground no_steps_env (models_flash None)
            db0 1 2)) 2)
       = Some ''pending''"
    using job_status_transitions [OF a b, of no_steps_env
        "models_flash None", THEN conjunct2, THEN conjunct2, THEN conjunct2, THEN conjunct1]
      none s0
    by (simp add: stored_message_def empty_values_def)
  from s1 s2 s3 none show ?thesis by (simp only: rows)
qed

lemma publicUrl_not_empty: "publicUrl e w i \<noteq> []"
  by (simp add: publicUrl_def)

lemma validUrls_of_upload_from:
  "validUrls_of (upload_from e w i paths)
     = map (publicUrl e w)
         (filter (\<lambda>k. upload_frame e k (paths ! (k - i)) (screenshot_storagePath w k) = Uploaded)
            [i ..< i + length paths])"
proof (induction paths arbitrary: i)
  case Nil
  then show ?case by (simp add: validUrls_of_def)
next
  case (Cons p ps)
  have tail: "filter (\<lambda>k. upload_frame e k ((p # ps) ! (k - i)) (screenshot_storagePath w k)
                         = Uploaded) [Suc i ..< Suc i + length ps]
            = filter (\<lambda>k. upload_frame e k (ps ! (k - Suc i)) (screenshot_storagePath w k)
                         = Uploaded) [Suc i ..< Suc i + length ps]"
  proof (rule filter_cong [OF refl])
    fix k
    assume "k \<in> set [Suc i ..< Suc i + length ps]"
    then have "Suc i \<le> k" by (simp only: set_upt atLeastLessThan_iff)
    then have "k - i = Suc (k - Suc i)" by arith
    then have "(p # ps) ! (k - i) = ps ! (k - Suc i)" by simp
    then show "(upload_frame e k ((p # ps) ! (k - i)) (screenshot_storagePath w k) = Uploaded)
             = (upload_frame e k (ps ! (k - Suc i)) (screenshot_storagePath w k) = Uploaded)"
      by simp
  qed
  have upt: "[i ..< i + length (p # ps)] = i # [Suc i ..< Suc i + length ps]"
    by (simp add: upt_rec)
  have IH: "validUrls_of (upload_from e w (Suc i) ps)
     = map (publicUrl e w)
         (filter (\<lambda>k. upload_frame e k (ps ! (k - Suc i)) (screenshot_storagePath w k) = Uploaded)
            [Suc i ..< Suc i + length ps])"
    by (rule Cons.IH)
  have step: "validUrls_of (upload_from e w i (p # ps))
     = (if upload_frame e i p (screenshot_storagePath w i) = Uploaded
        then [publicUrl e w i] else []) @ validUrls_of (upload_from e w (Suc i) ps)"
    by (cases "upload_frame e i p (screenshot_storagePath w i)")
      (simp_all add: validUrls_of_def publicUrl_not_empty)
  show ?case
    by (simp only: step IH upt tail [symmetric]) simp
qed

lemma merge_step_url:
  "merge_step valid s i = Inr r \<Longrightarrow> r_screenshot_url r = url_at valid i"
  by (auto simp: merge_step_def split: sum.splits)

lemma merge_from_urls:
  "merge_from valid i steps = Inr results \<Longrightarrow>
     map r_screenshot_url results = map (url_at valid) [i ..< i + length steps]"
proof (induction steps arbitrary: i results)
  case Nil
  then show ?case by simp
next
  case (Cons s ss)
  obtain r rs where r: "merge_step valid s i = Inr r"
    and rs: "merge_from valid (Suc i) ss = Inr rs" and res: "results = r # rs"
    using Cons.prems by (auto split: sum.splits)
  have "map r_screenshot_url rs = map (url_at valid) [Suc i ..< Suc i + length ss]"
    by (rule Cons.IH [OF rs])
  then show ?case
    using merge_step_url [OF r] res by (simp add: upt_rec)
qed

lemma merge_from_nth:
  "merge_from valid i steps = Inr results \<Longrightarrow>
     length results = length steps
     \<and> (\<forall>k<length steps. merge_step valid (steps ! k) (i + k) = Inr (results ! k))"
proof (induction steps arbitrary: i results)
  case Nil
  then show ?case by simp
next
  case (Cons s ss)
  obtain r rs where r: "merge_step valid s i = Inr r"
    and rs: "merge_from valid (Suc i) ss = Inr rs" and res: "results = r # rs"
    using Cons.prems by (auto split: sum.splits)
  have IH: "length rs = length ss
     \<and> (\<forall>k<length ss. merge_step valid (ss ! k) (Suc i + k) = Inr (rs ! k))"
    by (rule Cons.IH [OF rs])
  have "merge_step valid ((s # ss) ! k) (i + k) = Inr (results ! k)"
    if "k < length (s # ss)" for k
  proof (cases k)
    case 0
    then show ?thesis using r res by simp
  next
    case (Suc k')
    then have "k' < length ss" using that by simp
    then show ?thesis using IH Suc res by simp
  qed
  then show ?case using IH res by simp
qed

lemma merge_step_fields:
  "merge_step valid s i = Inr r \<Longrightarrow>
     js_get s ''type'' = Inr (r_type r)
     \<and> js_get s ''action'' = Inr (r_action r)
     \<and> js_get s ''description'' = Inr (r_description r)
     \<and> js_get s ''confidence'' = Inr (r_confidence r)
     \<and> r_screenshot_url r = url_at valid i"
  by (auto simp: merge_step_def split: sum.splits)

text \<open>
  Claim C1, amended. When the merge stage returns, there is one result for each step, in
  the order of the steps: the result at index \<open>i\<close> is made from the step at index \<open>i\<close>
  (its type, action, description and confidence) and carries the URL at index \<open>i\<close> of the
  list of valid URLs, or none when that list is shorter. The valid URLs are the URLs of the
  frames whose upload succeeded, in frame order. When every upload succeeds, the step at
  index \<open>i\<close> carries the URL of frame \<open>i\<close>, or none beyond the last frame.
\<close>

theorem merge_assigns_valid_urls_in_order:
  assumes "merge_screenshots (uploadFramesToStorage e framePaths workflowId) steps = Inr results"
  shows "length results = length steps
       \<and> (\<forall>k<length steps.
             merge_step (validUrls_of (uploadFramesToStorage e framePaths workflowId))
               (steps ! k) k = Inr (results ! k)
           \<and> js_get (steps ! k) ''type'' = Inr (r_type (results ! k))
           \<and> js_get (steps ! k) ''action'' = Inr (r_action (results ! k))
           \<and> js_get (steps ! k) ''description'' = Inr (r_description (results ! k))
           \<and> js_get (steps ! k) ''confidence'' = Inr (r_confidence (results ! k))
           \<and> r_screenshot_url (results ! k)
               = url_at (validUrls_of (uploadFramesToStorage e framePaths workflowId)) k)
       \<and> map r_screenshot_url results
           = map (url_at (validUrls_of (uploadFramesToStorage e framePaths workflowId)))
               [0 ..< length steps]
       \<and> validUrls_of (uploadFramesToStorage e framePaths workflowId)
           = map (publicUrl e workflowId)
               (filter (\<lambda>i. upload_frame e i (framePaths ! i)
                               (screenshot_storagePath workflowId i) = Uploaded)
                  [0 ..< length framePaths])
       \<and> ((\<forall>i<length framePaths. upload_frame e i (framePaths ! i)
                               (screenshot_storagePath workflowId i) = Uploaded) \<longrightarrow>
            map r_screenshot_url results
              = map (\<lambda>i. if i < length framePaths then Some (publicUrl e workflowId i) else None)
                  [0 ..< length steps])"
proof -
  let ?valid = "validUrls_of (uploadFramesToStorage e framePaths workflowId)"
  have mf: "merge_from ?valid 0 steps = Inr results"
    using assms by (simp add: merge_screenshots_def)
  have len: "length results = length steps"
    and tie: "\<forall>k<length steps. merge_step ?valid (steps ! k) k = Inr (results ! k)"
    using merge_from_nth [OF mf] by simp_all
  have fields: "js_get (steps ! k) ''type'' = Inr (r_type (results ! k))
           \<and> js_get (steps ! k) ''action'' = Inr (r_action (results ! k))
           \<and> js_get (steps ! k) ''description'' = Inr (r_description (results ! k))
           \<and> js_get (steps ! k) ''confidence'' = Inr (r_confidence (results ! k))
           \<and> r_screenshot_url (results ! k) = url_at ?valid k"
    if "k < length steps" for k
  proof -
    have "merge_step ?valid (steps ! k) k = Inr (results ! k)"
      using tie that by simp
    then show ?thesis
      by (rule merge_step_fields)
  qed
  have t: "\<forall>k<length steps.
             merge_step ?valid (steps ! k) k = Inr (results ! k)
           \<and> js_get (steps ! k) ''type'' = Inr (r_type (results ! k))
           \<and> js_get (steps ! k) ''action'' = Inr (r_action (results ! k))
           \<and> js_get (steps ! k) ''description'' = Inr (r_description (results ! k))
           \<and> js_get (steps ! k) ''confidence'' = Inr (r_confidence (results ! k))
           \<and> r_screenshot_url (results ! k) = url_at ?valid k"
    using tie fields by blast
  have a: "map r_screenshot_url results = map (url_at ?valid) [0 ..< length steps]"
    using merge_from_urls [OF mf] by simp
  have b: "?valid = map (publicUrl e workflowId)
               (filter (\<lambda>i. upload_frame e i (framePaths ! i)
                               (screenshot_storagePath workflowId i) = Uploaded)
                  [0 ..< length framePaths])"
    using validUrls_of_upload_from [of e workflowId 0 framePaths]
    by (simp add: uploadFramesToStorage_def)
  have c: "map r_screenshot_url results
              = map (\<lambda>i. if i < length framePaths then Some (publicUrl e workflowId i) else None)
                  [0 ..< length steps]"
    if all: "\<forall>i<length framePaths. upload_frame e i (framePaths ! i)
                               (screenshot_storagePath workflowId i) = Uploaded"
  proof -
    have "filter (\<lambda>i. upload_frame e i (framePaths ! i)
                               (screenshot_storagePath workflowId i) = Uploaded)
                  [0 ..< length framePaths] = [0 ..< length framePaths]"
      using all by (simp add: filter_id_conv)
    then have v: "?valid = map (publicUrl e workflowId) [0 ..< length framePaths]"
      using b by simp
    have "url_at ?valid i
            = (if i < length framePaths then Some (publicUrl e workflowId i) else None)" for i
      by (simp add: v url_at_def publicUrl_not_empty)
    then show ?thesis using a by simp
  qed
  show ?thesis
    apply (intro conjI)
        apply (rule len)
       apply (rule t)
      apply (rule a)
     apply (rule b)
    apply (rule impI)
    apply (erule c)
    done
qed

theorem merge_assigns_valid_urls_in_order_witness:
  "map (\<lambda>r. (r_action r, r_screenshot_url r))
     (projr (merge_screenshots
        (uploadFramesToStorage second_upload_fails_env [''f1.jpg'', ''f2.jpg'', ''f3.jpg''] 7)
        [JObject [(''action'', JString ''a'')], JObject [(''action'', JString ''b'')],
         JObject [(''action'', JString ''c'')]]))
     = [(Some (JString ''a''), Some (publicUrl second_upload_fails_env 7 0)),
        (Some (JString ''b''), Some (publicUrl second_upload_fails_env 7 2)),
        (Some (JString ''c''), None)]
   \<and> validUrls_of (uploadFramesToStorage second_upload_fails_env
                      [''f1.jpg'', ''f2.jpg'', ''f3.jpg''] 7)
     = [publicUrl second_upload_fails_env 7 0, publicUrl second_upload_fails_env 7 2]
   \<and> map r_screenshot_url
     (projr (merge_screenshots
        (uploadFramesToStorage calm_env [''f1.jpg'', ''f2.jpg'', ''f3.jpg''] 7)
        [JObject [], JObject [], JObject [], JObject []]))
     = [Some (publicUrl calm_env 7 0), Some (publicUrl calm_env 7 1),
        Some (publicUrl calm_env 7 2), None]"
proof -
  let ?e = second_upload_fails_env
  let ?frames = "[''f1.jpg'', ''f2.jpg'', ''f3.jpg'']"
  let ?steps = "[JObject [(''action'', JString ''a'')], JObject [(''action'', JString ''b'')],
                 JObject [(''action'', JString ''c'')]]"
  let ?none = "\<lparr>r_type = None, r_action = None, r_description = None,
        r_confidence = None, r_timestamp_seconds = None, r_screenshot_url = None\<rparr>"
  define results where "results = projr (merge_screenshots
        (uploadFramesToStorage ?e ?frames 7) ?steps)"
  have m: "merge_screenshots (uploadFramesToStorage ?e ?frames 7) ?steps = Inr results"
    unfolding results_def by code_simp
  have f: "filter (\<lambda>i. upload_frame ?e i (?frames ! i)
                               (screenshot_storagePath 7 i) = Uploaded)
                  [0 ..< length ?frames] = [0, 2]"
    by code_simp
  note T = merge_assigns_valid_urls_in_order [OF m]
  have t2: "validUrls_of (uploadFramesToStorage ?e ?frames 7)
     = [publicUrl ?e 7 0, publicUrl ?e 7 2]"
    using T [THEN conjunct2, THEN conjunct2, THEN conjunct2, THEN conjunct1]
    by (simp only: f) simp
  have len: "length results = 3"
    using T [THEN conjunct1] by simp
  have each: "\<forall>k<3. js_get (?steps ! k) ''action'' = Inr (r_action (results ! k))
           \<and> r_screenshot_url (results ! k)
               = url_at [publicUrl ?e 7 0, publicUrl ?e 7 2] k"
    using T [THEN conjunct2, THEN conjunct1] by (simp add: t2)
  have e0: "r_action (results ! 0) = Some (JString ''a'')
      \<and> r_screenshot_url (results ! 0) = Some (publicUrl ?e 7 0)"
    using each [rule_format, of 0] by (simp add: url_at_def publicUrl_not_empty)
  have e1: "r_action (results ! 1) = Some (JString ''b'')
      \<and> r_screenshot_url (results ! 1) = Some (publicUrl ?e 7 2)"
    using each [rule_format, of 1] by (simp add: url_at_def publicUrl_not_empty)
  have e2: "r_action (results ! 2) = Some (JString ''c'')
      \<and> r_screenshot_url (results ! 2) = None"
    using each [rule_format, of 2] by (simp add: url_at_def)
  obtain r0 r1 r2 where rs: "results = [r0, r1, r2]"
    using len by (cases results; cases "tl results"; cases "tl (tl results)") auto
  have t1: "map (\<lambda>r. (r_action r, r_screenshot_url r)) results
     = [(Some (JString ''a''), Some (publicUrl ?e 7 0)),
        (Some (JString ''b''), Some (publicUrl ?e 7 2)),
        (Some (JString ''c''), None)]"
    using e0 e1 e2 by (simp add: rs)
  let ?all = "[?none\<lparr>r_screenshot_url := Some (publicUrl calm_env 7 0)\<rparr>,
               ?none\<lparr>r_screenshot_url := Some (publicUrl calm_env 7 1)\<rparr>,
               ?none\<lparr>r_screenshot_url := Some (publicUrl calm_env 7 2)\<rparr>, ?none]"
  have m': "merge_screenshots (uploadFramesToStorage calm_env ?frames 7)
             [JObject [], JObject [], JObject [], JObject []] = Inr ?all"
    by code_simp
  have up: "\<forall>i<length ?frames.
              upload_frame calm_env i (?frames ! i) (screenshot_storagePath 7 i) = Uploaded"
    by (simp add: calm_env_def)
  have "map r_screenshot_url ?all
     = map (\<lambda>i. if i < length ?frames then Some (publicUrl calm_env 7 i) else None)
         [0 ..< length [JObject [], JObject [], JObject [], JObject []]]"
    using merge_assigns_valid_urls_in_order [OF m', THEN conjunct2, THEN conjunct2,
        THEN conjunct2, THEN conjunct2] up
    by blast
  then have t3: "map r_screenshot_url (projr (merge_screenshots
        (uploadFramesToStorage calm_env ?frames 7)
        [JObject [], JObject [], JObject [], JObject []]))
     = [Some (publicUrl calm_env 7 0), Some (publicUrl calm_env 7 1),
        Some (publicUrl calm_env 7 2), None]"
    by (simp only: m' sum.sel) simp
  show ?thesis
    using t1 t2 t3 unfolding results_def by (intro conjI)
qed

text \<open>
  Claim C1 as stated fails. Three frames are extracted, the model returns three steps, and
  the upload of the second frame fails. The merge stage drops the missing URL before it
  indexes: the step at index 1 receives the screenshot of the third frame and the step at
  index 2 receives none.
\<close>

theorem failed_upload_shifts_screenshots:
  "extractFrames second_upload_fails_env ''/tmp/video-1/in.mp4''
     = Inr [''f1.jpg'', ''f2.jpg'', ''f3.jpg'']
   \<and> uploadFramesToStorage second_upload_fails_env [''f1.jpg'', ''f2.jpg'', ''f3.jpg''] 7
     = [Some ''https://db.example/storage/v1/object/public/work-videos/screenshots/7/workflow_7_step_1.jpg'',
        None,
        Some ''https://db.example/storage/v1/object/public/work-videos/screenshots/7/workflow_7_step_3.jpg'']
   \<and> map_sum id (map (\<lambda>r. (r_action r, r_screenshot_url r)))
         (performAIAnalysis second_upload_fails_env (models_flash None) (Some ''u/v.mp4'') 7)
     = Inr [(Some (JString ''a''),
             Some ''https://db.example/storage/v1/object/public/work-videos/screenshots/7/workflow_7_step_1.jpg''),
            (Some (JString ''b''),
             Some ''https://db.example/storage/v1/object/public/work-videos/screenshots/7/workflow_7_step_3.jpg''),
            (Some (JString ''c''), None)]"
  by code_simp

section \<open>Properties of the JSON extraction\<close>

lemma starts_fence_iff:
  "starts_ci fence s \<longleftrightarrow> (\<exists>r. s = fence @ r)"
proof
  assume "starts_ci fence s"
  then show "\<exists>r. s = fence @ r"
    by (cases s; cases "tl s"; cases "tl (tl s)")
      (auto simp: fence_def split: if_splits)
next
  assume "\<exists>r. s = fence @ r"
  then show "starts_ci fence s" by (auto simp: fence_def)
qed

lemma lazy_until_fence_split:
  "lazy_until_fence s = Some body \<Longrightarrow> \<exists>rest. s = body @ fence @ rest"
proof (induction s arbitrary: body)
  case Nil
  then show ?case by simp
next
  case (Cons c cs)
  show ?case
  proof (cases "starts_ci fence (c # cs)")
    case True
    then have "body = []" using Cons.prems by simp
    then show ?thesis using True by (simp add: starts_fence_iff)
  next
    case False
    then obtain b where b: "lazy_until_fence cs = Some b" "body = c # b"
      using Cons.prems by auto
    from Cons.IH [OF b(1)] obtain rest where "cs = b @ fence @ rest" by blast
    then show ?thesis using b(2) by simp
  qed
qed


lemma two_more: "\<exists>x y r. b @ fence = x # y # r"
  by (cases b; cases "tl b") (auto simp: fence_def)

lemma lazy_until_fence_replace:
  "lazy_until_fence s = Some body \<Longrightarrow> replace_fences (body @ fence) = body"
proof (induction s arbitrary: body)
  case Nil
  then show ?case by simp
next
  case (Cons c cs)
  show ?case
  proof (cases "starts_ci fence (c # cs)")
    case True
    then have "body = []" using Cons.prems by simp
    then show ?thesis by (simp add: fence_def)
  next
    case False
    then obtain b where b: "lazy_until_fence cs = Some b" "body = c # b"
      using Cons.prems by auto
    obtain rest where cs: "cs = b @ fence @ rest"
      using lazy_until_fence_split [OF b(1)] by blast
    obtain x y r where xy: "b @ fence = x # y # r"
      using two_more by blast
    have "[c, x, y] \<noteq> fence"
    proof
      assume eq: "[c, x, y] = fence"
      have "c # cs = [c, x, y] @ (r @ rest)"
        using cs xy by (metis append_Cons append_Nil append_assoc)
      then have "starts_ci fence (c # cs)"
        using eq starts_fence_iff by metis
      with False show False by simp
    qed
    then have "replace_fences (c # x # y # r) = c # replace_fences (x # y # r)"
      by simp
    then show ?thesis
      using Cons.IH [OF b(1)] b(2) xy by simp
  qed
qed

lemma replace_fence_json_start:
  "starts_ci fence_json s \<Longrightarrow> replace_fence_json s = drop 7 s"
  by (cases s) (simp_all add: fence_json_def fence_def)

lemma match_codeBlock_shape:
  "match_codeBlock t = Some block \<Longrightarrow>
     \<exists>s body. starts_ci fence_json block \<and> lazy_until_fence s = Some body
       \<and> block = take 7 block @ body @ fence \<and> length (take 7 block) = 7"
proof (induction t)
  case Nil
  then show ?case by simp
next
  case (Cons c cs)
  show ?case
  proof (cases "starts_ci fence_json (c # cs)")
    case False
    then show ?thesis using Cons by simp
  next
    case True
    show ?thesis
    proof (cases "lazy_until_fence (drop 7 (c # cs))")
      case None
      then show ?thesis using Cons True by simp
    next
      case (Some body)
      then have blk: "block = take 7 (c # cs) @ body @ fence"
        using Cons.prems True by simp
      have len: "length (take 7 (c # cs)) = 7"
        using True
        by (cases cs; cases "tl cs"; cases "tl (tl cs)"; cases "tl (tl (tl cs))";
            cases "tl (tl (tl (tl cs)))"; cases "tl (tl (tl (tl (tl cs))))")
          (auto simp: fence_json_def fence_def)
      have pre: "take 7 block = take 7 (c # cs)"
        using blk len by simp
      have "starts_ci fence_json (take 7 (c # cs) @ r)" for r
        using True
        by (cases cs; cases "tl cs"; cases "tl (tl cs)"; cases "tl (tl (tl cs))";
            cases "tl (tl (tl (tl cs)))"; cases "tl (tl (tl (tl (tl cs))))")
          (auto simp: fence_json_def fence_def)
      then have st: "starts_ci fence_json block"
        using blk by simp
      show ?thesis
        using Some blk len pre st by auto
    qed
  qed
qed


lemma inner_of_block:
  assumes "match_codeBlock t = Some block"
  shows "replace_fences (replace_fence_json block) = take (length block - 10) (drop 7 block)"
proof -
  obtain s body where sh: "starts_ci fence_json block" "lazy_until_fence s = Some body"
      "block = take 7 block @ body @ fence" "length (take 7 block) = 7"
    using match_codeBlock_shape [OF assms] by blast
  have "drop 7 block = drop 7 (take 7 block @ body @ fence)"
    by (rule arg_cong [OF sh(3)])
  also have "\<dots> = body @ fence"
    using sh(4) by simp
  finally have d: "drop 7 block = body @ fence" .
  have "length (drop 7 block) = length body + 3"
    by (simp only: d) (simp add: fence_def)
  then have l: "length block - 10 = length body"
    by simp
  have "replace_fences (replace_fence_json block) = body"
    using replace_fence_json_start [OF sh(1)] d lazy_until_fence_replace [OF sh(2)] by simp
  moreover have "take (length block - 10) (drop 7 block) = body"
    by (simp only: d l) simp
  ultimately show ?thesis by simp
qed

lemma starts_ci_append:
  "length p \<le> length a \<Longrightarrow> starts_ci p (a @ b) = starts_ci p a"
  by (induction p a rule: starts_ci.induct) simp_all

lemma starts_ci_pattern_prefix:
  "starts_ci (p @ q) s \<Longrightarrow> starts_ci p s"
  by (induction p s rule: starts_ci.induct) simp_all

lemma first_three:
  assumes "starts_ci fence (c # j @ fence @ post)"
  shows "starts_ci fence (c # j @ take 2 fence)"
proof -
  have eq: "c # j @ fence @ post = (c # j @ take 2 fence) @ (drop 2 fence @ post)"
    by simp
  have len: "length fence \<le> length (c # j @ take 2 fence)"
    by (simp add: fence_def)
  have "starts_ci fence ((c # j @ take 2 fence) @ (drop 2 fence @ post))"
    using assms by (simp only: eq)
  then show ?thesis
    by (simp only: starts_ci_append [OF len])
qed

lemma lazy_until_fence_exact:
  "\<not> occurs_in fence (j @ take 2 fence) \<Longrightarrow> lazy_until_fence (j @ fence @ post) = Some j"
proof (induction j)
  case Nil
  then show ?case by (simp add: fence_def)
next
  case (Cons c j)
  have "\<not> starts_ci fence (c # j @ fence @ post)"
    using Cons.prems first_three by auto
  moreover have "\<not> occurs_in fence (j @ take 2 fence)"
    using Cons.prems by simp
  ultimately show ?case using Cons.IH by simp
qed

lemma skip_prefix_without_opener:
  assumes "\<not> occurs_in fence_json pre" and "starts_ci fence s"
  shows "match_codeBlock (pre @ s) = match_codeBlock s"
  using assms
proof (induction pre)
  case Nil
  then show ?case by simp
next
  case (Cons c pre)
  obtain r where s: "s = fence @ r" using Cons.prems(2) starts_fence_iff by blast
  have nf: "\<not> starts_ci fence_json (c # pre)" and nf': "\<not> occurs_in fence_json pre"
    using Cons.prems(1) by simp_all
  have "\<not> starts_ci fence_json (c # pre @ s)"
  proof
    assume a: "starts_ci fence_json (c # pre @ s)"
    show False
    proof (cases "6 \<le> length pre")
      case True
      then have "length fence_json \<le> length (c # pre)"
        by (simp add: fence_json_def fence_def)
      then have "starts_ci fence_json (c # pre)"
        using a starts_ci_append [of fence_json "c # pre" s] by simp
      with nf show False by simp
    next
      case False
      then consider "pre = []" | x1 where "pre = [x1]" | x1 x2 where "pre = [x1, x2]"
        | x1 x2 x3 where "pre = [x1, x2, x3]" | x1 x2 x3 x4 where "pre = [x1, x2, x3, x4]"
        | x1 x2 x3 x4 x5 where "pre = [x1, x2, x3, x4, x5]"
        by (cases pre; cases "tl pre"; cases "tl (tl pre)"; cases "tl (tl (tl pre))";
            cases "tl (tl (tl (tl pre)))"; cases "tl (tl (tl (tl (tl pre))))") auto
      then show False
      proof cases
        case 1
        then show False using a s by (simp add: fence_json_def fence_def)
      next
        case 2
        then show False using a s by (simp add: fence_json_def fence_def)
      next
        case 3
        then show False using a s by (simp add: fence_json_def fence_def)
      next
        case 4
        then show False using a s by (simp add: fence_json_def fence_def)
      next
        case 5
        then show False using a s by (simp add: fence_json_def fence_def)
      next
        case 6
        then show False using a s by (simp add: fence_json_def fence_def)
      qed
    qed
  qed
  then show ?case using Cons.IH [OF nf' Cons.prems(2)] by simp
qed

lemma indexOf_first:
  "x \<notin> set a \<Longrightarrow> indexOf (a @ x # b) x = Some (length a)"
  by (induction a) auto

lemma brace_span:
  assumes "j \<noteq> []" and "hd j = CHR ''{''" and "last j = CHR ''}''"
    and "CHR ''{'' \<notin> set pre" and "CHR ''}'' \<notin> set post"
  shows "indexOf (pre @ j @ post) (CHR ''{'') = Some (length pre)"
    and "lastIndexOf (pre @ j @ post) (CHR ''}'') = Some (length pre + length j - 1)"
proof -
  obtain j' where j': "j = CHR ''{'' # j'"
    using assms(1,2) by (cases j) auto
  show "indexOf (pre @ j @ post) (CHR ''{'') = Some (length pre)"
    using indexOf_first [OF assms(4), of "j' @ post"] j' by simp
  obtain j'' where j'': "j = j'' @ [CHR ''}'']"
    using assms(1,3) by (metis append_butlast_last_id)
  have "rev (pre @ j @ post) = rev post @ CHR ''}'' # (rev j'' @ rev pre)"
    using j'' by simp
  moreover have "CHR ''}'' \<notin> set (rev post)" using assms(5) by simp
  ultimately have "indexOf (rev (pre @ j @ post)) (CHR ''}'') = Some (length post)"
    using indexOf_first [of "CHR ''}''" "rev post" "rev j'' @ rev pre"] by simp
  then show "lastIndexOf (pre @ j @ post) (CHR ''}'') = Some (length pre + length j - 1)"
    using assms(1) by (simp add: lastIndexOf_def)
qed






lemma match_fenced:
  assumes "\<not> occurs_in fence_json pre" and "starts_ci fence_json opener" and "length opener = 7"
    and "\<not> occurs_in fence (j @ take 2 fence)"
  shows "match_codeBlock (pre @ opener @ j @ fence @ post) = Some (opener @ j @ fence)"
proof -
  let ?s = "opener @ j @ fence @ post"
  have len: "length fence_json \<le> length opener"
    using assms(3) by (simp add: fence_json_def fence_def)
  have sj: "starts_ci fence_json ?s"
    using assms(2) by (simp only: starts_ci_append [OF len])
  then have sf: "starts_ci fence ?s"
    using starts_ci_pattern_prefix [of fence "''json''" ?s] by (simp add: fence_json_def)
  obtain c cs where ocs: "opener = c # cs"
    using assms(3) by (cases opener) auto
  have lz: "lazy_until_fence (drop 7 ?s) = Some j"
    using lazy_until_fence_exact [OF assms(4), of post] assms(3) by simp
  have "match_codeBlock ?s = Some (take 7 ?s @ j @ fence)"
    using sj lz by (simp add: ocs)
  then have "match_codeBlock ?s = Some (opener @ j @ fence)"
    using assms(3) by simp
  then show ?thesis
    using skip_prefix_without_opener [OF assms(1) sf] by simp
qed

text \<open>
  Claim C3, amended. Let \<open>j\<close> be a text that the parser accepts with value \<open>v\<close>.
  Fenced form: when \<open>j\<close> stands between an opening fence (three back-ticks and the word
  json in any case) and a closing fence, no opening fence occurs earlier in the text, and
  no three back-ticks begin inside \<open>j\<close>, the routine returns \<open>v\<close>. Bare form and prose
  form: when the text holds no fenced block, \<open>j\<close> begins with an opening brace and ends with
  a closing brace, no opening brace comes before \<open>j\<close> and no closing brace after it, the
  routine returns \<open>v\<close>.
\<close>

theorem extractJson_recovers_embedded_json:
  assumes "parse j = Some v"
  shows "(\<not> occurs_in fence_json pre \<and> starts_ci fence_json opener \<and> length opener = 7
            \<and> \<not> occurs_in fence (j @ take 2 fence) \<longrightarrow>
          extractJson parse (pre @ opener @ j @ fence @ post) = Inr v)
       \<and> (match_codeBlock (before @ j @ after) = None \<and> j \<noteq> [] \<and> hd j = CHR ''{''
            \<and> last j = CHR ''}'' \<and> CHR ''{'' \<notin> set before \<and> CHR ''}'' \<notin> set after \<longrightarrow>
          extractJson parse (before @ j @ after) = Inr v)"
proof (intro conjI impI)
  assume h: "\<not> occurs_in fence_json pre \<and> starts_ci fence_json opener \<and> length opener = 7
            \<and> \<not> occurs_in fence (j @ take 2 fence)"
  let ?t = "pre @ opener @ j @ fence @ post"
  let ?b = "opener @ j @ fence"
  have m: "match_codeBlock ?t = Some ?b"
    using match_fenced [of pre opener j post] h by simp
  have "take (length ?b - 10) (drop 7 ?b) = j"
    using h by (simp add: fence_def)
  then have "replace_fences (replace_fence_json ?b) = j"
    using inner_of_block [OF m] by simp
  then show "extractJson parse ?t = Inr v"
    using m assms by (simp add: extractJson_def parse_or_throw_def)
next
  assume h: "match_codeBlock (before @ j @ after) = None \<and> j \<noteq> [] \<and> hd j = CHR ''{''
            \<and> last j = CHR ''}'' \<and> CHR ''{'' \<notin> set before \<and> CHR ''}'' \<notin> set after"
  let ?t = "before @ j @ after"
  have i: "indexOf ?t (CHR ''{'') = Some (length before)"
    and l: "lastIndexOf ?t (CHR ''}'') = Some (length before + length j - 1)"
    using brace_span [of j before after] h by simp_all
  have "j \<noteq> []" using h by simp
  then have "slice ?t (length before) (length before + length j - 1 + 1) = j"
    by (cases j) (simp_all add: slice_def)
  then show "extractJson parse ?t = Inr v"
    using h i l assms by (simp add: extractJson_def parse_or_throw_def)
qed

theorem extractJson_recovers_embedded_json_witness:
  "extractJson json_parse
     ((''First '' @ fence @ ''py x '' @ fence @ '', then: '') @ (fence @ ''JSON'') @ steps_text
        @ fence @ '' done'')
     = Inr (JObject [(''steps'', JArray [])])
   \<and> extractJson json_parse (''Here :-} you go: '' @ steps_text @ '' Thanks!'')
     = Inr (JObject [(''steps'', JArray [])])"
proof -
  have p: "json_parse steps_text = Some (JObject [(''steps'', JArray [])])"
    by code_simp
  have f: "\<not> occurs_in fence_json (''First '' @ fence @ ''py x '' @ fence @ '', then: '')
            \<and> starts_ci fence_json (fence @ ''JSON'')
            \<and> length (fence @ ''JSON'') = 7
            \<and> \<not> occurs_in fence (steps_text @ take 2 fence)"
    by code_simp
  have b: "match_codeBlock (''Here :-} you go: '' @ steps_text @ '' Thanks!'') = None
            \<and> steps_text \<noteq> [] \<and> hd steps_text = CHR ''{''
            \<and> last steps_text = CHR ''}'' \<and> CHR ''{'' \<notin> set ''Here :-} you go: ''
            \<and> CHR ''}'' \<notin> set '' Thanks!''"
    by code_simp
  note T = extractJson_recovers_embedded_json [where parse = json_parse and j = steps_text
      and v = "JObject [(''steps'', JArray [])]"
      and pre = "''First '' @ fence @ ''py x '' @ fence @ '', then: ''"
      and opener = "fence @ ''JSON''" and post = "'' done''"
      and before = "''Here :-} you go: ''" and after = "'' Thanks!''"]
  from T p f b show ?thesis by blast
qed

text \<open>
  Claim C3 as stated fails in each form. Prose with braces of its own: the span from the
  first opening brace to the last closing brace is not the embedded object, and the
  routine throws. A fenced object with three back-ticks inside a string: the block ends at
  those back-ticks, and the routine throws. A bare object with a string that quotes a
  fenced block: the routine returns the content of the quoted block, the number 1. A fenced
  object after an earlier fenced block: the routine returns the content of the earlier
  block, the number 1.
\<close>

theorem extractJson_roundtrip_counterexample:
  "json_parse steps_text = Some (JObject [(''steps'', JArray [])])
   \<and> extractJson json_parse (''Use {braces}: '' @ steps_text) = Inl parse_failure
   \<and> json_parse steps_with_ticks_text
       = Some (JObject [(''steps'', JArray []), (''d'', JString (''a'' @ fence @ ''b''))])
   \<and> extractJson json_parse (fence @ ''json'' @ steps_with_ticks_text @ fence)
       = Inl parse_failure
   \<and> json_parse steps_quoting_block_text
       = Some (JObject [(''steps'', JArray []),
                        (''d'', JString (fence @ ''json 1 '' @ fence))])
   \<and> extractJson json_parse steps_quoting_block_text = Inr (JNumber ''1'')
   \<and> extractJson json_parse
         (fence @ ''json 1 '' @ fence @ '' and '' @ fence @ ''json'' @ steps_text @ fence)
       = Inr (JNumber ''1'')"
  by code_simp


section \<open>Properties of the model fallback\<close>

lemma index_of_absent: "x \<notin> set xs \<Longrightarrow> index_of xs x = -1"
  by (induction xs) (auto simp: Let_def)

lemma index_of_present: "x \<in> set xs \<Longrightarrow> 0 \<le> index_of xs x"
  by (induction xs) (auto simp: Let_def)

lemma index_of_nth_distinct:
  "distinct xs \<Longrightarrow> j < length xs \<Longrightarrow> index_of xs (xs ! j) = int j"
proof (induction xs arbitrary: j)
  case Nil
  then show ?case by simp
next
  case (Cons x xs)
  show ?case
  proof (cases j)
    case 0
    then show ?thesis by simp
  next
    case (Suc j')
    then have "xs ! j' \<in> set xs" and "xs ! j' \<noteq> x"
      using Cons.prems by auto
    moreover have "index_of xs (xs ! j') = int j'"
      using Cons.IH Cons.prems Suc by simp
    ultimately show ?thesis using Suc by (simp add: Let_def)
  qed
qed

lemma pause_distinct:
  assumes "distinct models" and "j < length models"
  shows "pause models (models ! j) = (if Suc j < length models then [Wait 1000] else [])"
  using index_of_nth_distinct [OF assms] assms(2) by (auto simp: pause_def)

lemma try_models_run:
  assumes "k < length rest"
    and "\<forall>j<k. \<exists>err. attempt_model e (i + j) (rest ! j) imgs = Inl err \<and> \<not> is_fatal err"
    and "\<forall>j<k. pause models (rest ! j) = [Wait 1000]"
  shows "try_models e models imgs i rest lastError
           = (case try_models e models imgs (i + k) (drop k rest)
                     (if k = 0 then lastError
                      else Some (projl (attempt_model e (i + k - 1) (rest ! (k - 1)) imgs))) of
                (evs, r) \<Rightarrow> (retries (take k rest) @ evs, r))"
  using assms
proof (induction k arbitrary: i rest lastError)
  case 0
  then show ?case by (simp add: retries_def split: prod.splits)
next
  case (Suc k)
  obtain m rest' where rest: "rest = m # rest'"
    using Suc.prems(1) by (cases rest) auto
  obtain err where err: "attempt_model e i m imgs = Inl err" "\<not> is_fatal err"
    using Suc.prems(2) rest by fastforce
  have p: "pause models m = [Wait 1000]"
    using Suc.prems(3) rest by fastforce
  have k: "k < length rest'" using Suc.prems(1) rest by simp
  have a: "\<forall>j<k. \<exists>err. attempt_model e (Suc i + j) (rest' ! j) imgs = Inl err \<and> \<not> is_fatal err"
    using Suc.prems(2) rest by fastforce
  have b: "\<forall>j<k. pause models (rest' ! j) = [Wait 1000]"
    using Suc.prems(3) rest by fastforce
  note IH = Suc.IH [OF k a b, of "Some err"]
  have last_eq: "(if k = 0 then Some err
              else Some (projl (attempt_model e (Suc i + k - 1) (rest' ! (k - 1)) imgs)))
        = Some (projl (attempt_model e (i + Suc k - 1) (rest ! (Suc k - 1)) imgs))"
    using err rest by (cases k) simp_all
  show ?case
    using IH err p last_eq
    by (simp add: rest retries_def split: prod.splits)
qed


lemma is_fatal_iff:
  "is_fatal err \<longleftrightarrow> (\<exists>n. err_status err = Some n \<and> n \<noteq> 0 \<and> n \<noteq> 503)"
  by (auto simp: is_fatal_def truthy_status_def split: option.splits)

lemma try_models_at:
  assumes "distinct models" and "k < length models"
    and "\<forall>j<k. \<exists>err. attempt_model e j (models ! j) imgs = Inl err \<and> \<not> is_fatal err"
  shows "try_models e models imgs 0 models None
           = (case try_models e models imgs k (models ! k # drop (Suc k) models)
                     (if k = 0 then None
                      else Some (projl (attempt_model e (k - 1) (models ! (k - 1)) imgs))) of
                (evs, r) \<Rightarrow> (retries (take k models) @ evs, r))"
proof -
  have p: "\<forall>j<k. pause models (models ! j) = [Wait 1000]"
    using pause_distinct [OF assms(1)] assms(2) by simp
  have a: "\<forall>j<k. \<exists>err. attempt_model e (0 + j) (models ! j) imgs = Inl err \<and> \<not> is_fatal err"
    using assms(3) by simp
  have d: "drop k models = models ! k # drop (Suc k) models"
    using assms(2) by (simp add: Cons_nth_drop_Suc)
  show ?thesis
    using try_models_run [OF assms(2) a p, of None] d by simp
qed

text \<open>
  The loop as it is written. The API key is set, the frames can be read and the models of
  the list are distinct. Suppose the attempts before position \<open>k\<close> all failed with an error
  that the guard lets through (status 503, status 0 or no status). Then each of them was
  followed by a wait of 1000 ms and the next model, and: if attempt \<open>k\<close> answers with steps,
  these are returned; if attempt \<open>k\<close> fails with an error that the guard stops, or \<open>k\<close> is
  the last position, that error is thrown and nothing more is tried or waited for.
\<close>

lemma fallback_loop_outcome:
  assumes "GEMINI_API_KEY e = Some key" and "key \<noteq> []"
    and "read_all e framePaths = Inr imgs"
    and "distinct models" and "k < length models"
    and "\<forall>j<k. \<exists>err. attempt_model e j (models ! j) imgs = Inl err \<and> \<not> is_fatal err"
  shows "(attempt_model e k (models ! k) imgs = Inr steps \<longrightarrow>
            analyzeFramesWithGemini_trace e models framePaths
              = (retries (take k models) @ [Try (models ! k)], Inr steps))
       \<and> (attempt_model e k (models ! k) imgs = Inl err
            \<and> (is_fatal err \<or> Suc k = length models) \<longrightarrow>
            analyzeFramesWithGemini_trace e models framePaths
              = (retries (take k models) @ [Try (models ! k)], Inl err))
       \<and> (is_fatal err \<longleftrightarrow> (\<exists>n. err_status err = Some n \<and> n \<noteq> 0 \<and> n \<noteq> 503))"
proof -
  have top: "analyzeFramesWithGemini_trace e models framePaths
               = try_models e models imgs 0 models None"
    using assms(1,2,3) by (simp add: analyzeFramesWithGemini_trace_def)
  note run = try_models_at [OF assms(4,5,6)]
  have c1: "attempt_model e k (models ! k) imgs = Inr steps \<longrightarrow>
            analyzeFramesWithGemini_trace e models framePaths
              = (retries (take k models) @ [Try (models ! k)], Inr steps)"
    by (simp add: top run)
  have c2: "attempt_model e k (models ! k) imgs = Inl err
            \<and> (is_fatal err \<or> Suc k = length models) \<longrightarrow>
            analyzeFramesWithGemini_trace e models framePaths
              = (retries (take k models) @ [Try (models ! k)], Inl err)"
  proof (intro impI)
    assume h: "attempt_model e k (models ! k) imgs = Inl err
            \<and> (is_fatal err \<or> Suc k = length models)"
    show "analyzeFramesWithGemini_trace e models framePaths
              = (retries (take k models) @ [Try (models ! k)], Inl err)"
    proof (cases "is_fatal err")
      case True
      then show ?thesis using h by (simp add: top run)
    next
      case False
      then have last: "Suc k = length models" using h by simp
      then have "pause models (models ! k) = []"
        using pause_distinct [OF assms(4,5)] by simp
      then show ?thesis using h False last by (simp add: top run)
    qed
  qed
  show ?thesis using c1 c2 is_fatal_iff by blast
qed

lemma fallback_loop_examples:
  "analyzeFramesWithGemini_trace two_unavailable_env (models_flash None) [''f1.jpg'']
     = ([Try ''gemini-2.0-flash'', Wait 1000, Try ''gemini-flash-latest'', Wait 1000,
         Try ''gemini-2.5-flash''],
        Inr [JObject [(''action'', JString ''a'')], JObject [(''action'', JString ''b'')],
             JObject [(''action'', JString ''c'')]])
   \<and> analyzeFramesWithGemini_trace bad_request_env (models_flash None) [''f1.jpg'']
     = ([Try ''gemini-2.0-flash''], Inl (Error (Text ''Bad request'') (Some 400)))
   \<and> analyzeFramesWithGemini_trace all_unavailable_env (models_flash None) [''f1.jpg'']
     = ([Try ''gemini-2.0-flash'', Wait 1000, Try ''gemini-flash-latest'', Wait 1000,
         Try ''gemini-2.5-flash''],
        Inl (Error (Text ''overloaded, attempt 2'') (Some 503)))"
proof -
  let ?m = "models_flash None"
  let ?err = "Error (Text ''The model is overloaded'') (Some 503)"
  have d: "distinct ?m" by code_simp
  have t: "retries (take 2 ?m) @ [Try (?m ! 2)]
     = [Try ''gemini-2.0-flash'', Wait 1000, Try ''gemini-flash-latest'', Wait 1000,
         Try ''gemini-2.5-flash'']" by code_simp
  have t0: "retries (take 0 ?m) @ [Try (?m ! 0)] = [Try ''gemini-2.0-flash'']" by code_simp
  have first: "analyzeFramesWithGemini_trace two_unavailable_env ?m [''f1.jpg'']
     = ([Try ''gemini-2.0-flash'', Wait 1000, Try ''gemini-flash-latest'', Wait 1000,
         Try ''gemini-2.5-flash''],
        Inr [JObject [(''action'', JString ''a'')], JObject [(''action'', JString ''b'')],
             JObject [(''action'', JString ''c'')]])"
  proof -
    let ?e = two_unavailable_env
    have k: "GEMINI_API_KEY ?e = Some ''key''" "''key'' \<noteq> []" by code_simp+
    have r: "read_all ?e [''f1.jpg''] = Inr [''f1.jpg'']" by code_simp
    have l: "(2::nat) < length ?m" by code_simp
    have a0: "attempt_model ?e 0 (?m ! 0) [''f1.jpg''] = Inl ?err" by code_simp
    have a1: "attempt_model ?e 1 (?m ! 1) [''f1.jpg''] = Inl ?err" by code_simp
    have nf: "\<not> is_fatal ?err" by code_simp
    have f: "\<forall>j<2. \<exists>err. attempt_model ?e j (?m ! j) [''f1.jpg''] = Inl err \<and> \<not> is_fatal err"
      using a0 a1 nf by (auto simp: less_Suc_eq numeral_2_eq_2)
    have a2: "attempt_model ?e 2 (?m ! 2) [''f1.jpg'']
       = Inr [JObject [(''action'', JString ''a'')], JObject [(''action'', JString ''b'')],
              JObject [(''action'', JString ''c'')]]" by code_simp
    from fallback_loop_outcome [OF k r d l f, THEN conjunct1] a2 t show ?thesis by simp
  qed
  have second: "analyzeFramesWithGemini_trace bad_request_env ?m [''f1.jpg'']
     = ([Try ''gemini-2.0-flash''], Inl (Error (Text ''Bad request'') (Some 400)))"
  proof -
    let ?e = bad_request_env
    have k: "GEMINI_API_KEY ?e = Some ''key''" "''key'' \<noteq> []" by code_simp+
    have r: "read_all ?e [''f1.jpg''] = Inr [''f1.jpg'']" by code_simp
    have l: "(0::nat) < length ?m" by code_simp
    have f: "\<forall>j<0. \<exists>err. attempt_model ?e j (?m ! j) [''f1.jpg''] = Inl err \<and> \<not> is_fatal err"
      by simp
    have a0: "attempt_model ?e 0 (?m ! 0) [''f1.jpg'']
                = Inl (Error (Text ''Bad request'') (Some 400))" by code_simp
    have fatal: "is_fatal (Error (Text ''Bad request'') (Some 400))" by code_simp
    from fallback_loop_outcome [where err = "Error (Text ''Bad request'') (Some 400)",
        OF k r d l f, THEN conjunct2, THEN conjunct1] a0 fatal t0
    show ?thesis by simp
  qed
  have third: "analyzeFramesWithGemini_trace all_unavailable_env ?m [''f1.jpg'']
     = ([Try ''gemini-2.0-flash'', Wait 1000, Try ''gemini-flash-latest'', Wait 1000,
         Try ''gemini-2.5-flash''],
        Inl (Error (Text ''overloaded, attempt 2'') (Some 503)))"
  proof -
    let ?e = all_unavailable_env
    have k: "GEMINI_API_KEY ?e = Some ''key''" "''key'' \<noteq> []" by code_simp+
    have r: "read_all ?e [''f1.jpg''] = Inr [''f1.jpg'']" by code_simp
    have l: "(2::nat) < length ?m" by code_simp
    have a0: "attempt_model ?e 0 (?m ! 0) [''f1.jpg'']
                = Inl (Error (Text ''overloaded, attempt 0'') (Some 503))" by code_simp
    have a1: "attempt_model ?e 1 (?m ! 1) [''f1.jpg'']
                = Inl (Error (Text ''overloaded, attempt 1'') (Some 503))" by code_simp
    have nf: "\<not> is_fatal (Error (Text ''overloaded, attempt 0'') (Some 503))"
      "\<not> is_fatal (Error (Text ''overloaded, attempt 1'') (Some 503))" by code_simp+
    have f: "\<forall>j<2. \<exists>err. attempt_model ?e j (?m ! j) [''f1.jpg''] = Inl err \<and> \<not> is_fatal err"
      using a0 a1 nf by (auto simp: less_Suc_eq numeral_2_eq_2)
    have a2: "attempt_model ?e 2 (?m ! 2) [''f1.jpg'']
                = Inl (Error (Text ''overloaded, attempt 2'') (Some 503))" by code_simp
    have last: "Suc 2 = length ?m" by code_simp
    from fallback_loop_outcome [where err = "Error (Text ''overloaded, attempt 2'') (Some 503)",
        OF k r d l f, THEN conjunct2, THEN conjunct1] a2 last t
    show ?thesis by simp
  qed
  from first second third show ?thesis by simp
qed

text \<open>
  Claim C2. The comment above the guard says that nothing more is tried unless the error
  is a 503, and an error with another status does end the loop: a 400 from the first model is
  thrown at once. The guard tests \<open>error.status\<close> for truth first, so an error without a
  status is let through although it is not a 503: when the first model answers with prose,
  the routine's own parse error is followed by the wait and the second model, whose steps
  are returned; likewise when the first model answers with an object that has no steps.
\<close>

theorem statusless_error_is_retried:
  "attempt_model first_answer_prose_env 0 ''gemini-2.0-flash'' [''f1.jpg'']
     = Inl (Error (Text ''Failed to parse JSON from Gemini response'') None)
   \<and> analyzeFramesWithGemini_trace first_answer_prose_env (models_flash None) [''f1.jpg'']
     = ([Try ''gemini-2.0-flash'', Wait 1000, Try ''gemini-flash-latest''], Inr [])
   \<and> attempt_model first_answer_no_steps_env 0 ''gemini-2.0-flash'' [''f1.jpg'']
     = Inl (Error (Text ''Invalid JSON format from Gemini'') None)
   \<and> analyzeFramesWithGemini_trace first_answer_no_steps_env (models_flash None) [''f1.jpg'']
     = ([Try ''gemini-2.0-flash'', Wait 1000, Try ''gemini-flash-latest''], Inr [])
   \<and> analyzeFramesWithGemini_trace first_answer_prose_env (models_lite None) [''f1.jpg'']
     = ([Try ''gemini-2.5-flash'', Wait 1000, Try ''gemini-2.5-flash-lite''], Inr [])
   \<and> analyzeFramesWithGemini_trace bad_request_env (models_flash None) [''f1.jpg'']
     = ([Try ''gemini-2.0-flash''], Inl (Error (Text ''Bad request'') (Some 400)))"
  by code_simp

end
